theory Spec2Isabelle
  imports Complex_Main "HOL-Library.Char_ord" "HOL-Library.List_Lexorder" "HOL-Library.Word"
begin

unbundle bit_operations_syntax

section \<open>Numbers and exceptions of the host language\<close>

text \<open>
  The utilities of \<^verbatim>\<open>src/libraries_io_mcp/utils.py\<close> compute with Python's unbounded
  integers (\<^typ>\<open>int\<close>) and with floats.  A finite float is the rational number it denotes
  (\<^typ>\<open>rat\<close>).  The arithmetic of the rate limiter is modelled as the machine does it:
  every operation rounds its exact result to the nearest double, a result beyond the
  range of a double is an infinity, and an integer operand is converted to a float first.
  That conversion raises \<^verbatim>\<open>OverflowError\<close> as soon as the integer rounds to a magnitude
  beyond the largest double, that is from \<open>2^1024 - 2^970\<close> on.  The delays of the retry
  handler and the lifetimes of the cache are computed without rounding; of their
  arithmetic only the conversion of \<^verbatim>\<open>2 ** attempt\<close> is modelled with its error, an integer
  that the code builds itself and that grows without bound.

  Readings of the clock (\<^verbatim>\<open>time.time()\<close>) are inputs of the model: a function is given
  every reading it takes, in the order in which it takes them.
\<close>

datatype error =
    OverflowError            \<comment> \<open>int too large to convert to float\<close>
  | ZeroDivisionError
  | ValueError               \<comment> \<open>cannot convert float NaN to integer\<close>
  | KeyError
  | JSONDecodeError
  | RecursionError
  | UnknownError             \<comment> \<open>\<^verbatim>\<open>Exception("Unknown error occurred")\<close>\<close>

definition float_of_int :: "int \<Rightarrow> error + rat" where
  \<comment> \<open>The overflow check of the conversion; the retry handler converts powers of two
     only, which need no rounding.\<close>
  "float_of_int n =
     (if \<bar>n\<bar> \<ge> 2 ^ 1024 - 2 ^ 970 then Inl OverflowError else Inr (of_int n))"

section \<open>RetryHandler\<close>

record RetryHandler =
  max_retries :: int
  base_delay :: rat
  max_delay :: rat

text \<open>
  One invocation of the awaited operation returns a value, raises an exception that
  \<^verbatim>\<open>except Exception\<close> catches, or raises one that it does not catch (a \<^verbatim>\<open>BaseException\<close>
  such as a cancellation).  The operation may behave differently each time, so it is a
  function of the number of invocations made before.
\<close>

datatype ('e, 'a) outcome = Returns 'a | Raises 'e | RaisesBase 'e

datatype 'e raised =
    ByOperation 'e           \<comment> \<open>the exception object the operation raised\<close>
  | ByHandler error          \<comment> \<open>an exception that originates in \<^verbatim>\<open>retry\<close> itself\<close>

record ('e, 'a) retry_run =
  invocations :: nat                \<comment> \<open>how often the operation was invoked\<close>
  slept :: "rat list"               \<comment> \<open>the delays passed to \<^verbatim>\<open>asyncio.sleep\<close>, in order\<close>
  result :: "'e raised + 'a"        \<comment> \<open>what \<^verbatim>\<open>retry\<close> raises (\<open>Inl\<close>) or returns (\<open>Inr\<close>)\<close>

definition backoff_delay :: "RetryHandler \<Rightarrow> int \<Rightarrow> int \<Rightarrow> error + rat" where
  \<comment> \<open>Lines 264--268; \<open>h\<close> is the value of \<^verbatim>\<open>hash(time.time())\<close>.\<close>
  "backoff_delay self attempt h =
     (case float_of_int (2 ^ nat attempt) of
        Inl err \<Rightarrow> Inl err
      | Inr p \<Rightarrow>
          let delay = min (max_delay self) (base_delay self * p);
              jitter = delay * (1 / 10) * of_int (h mod 100) / 100
          in Inr (delay + jitter))"

definition raise_last :: "'e option \<Rightarrow> nat \<Rightarrow> rat list \<Rightarrow> ('e, 'a) retry_run" where
  \<comment> \<open>Lines 272--274, after the loop.\<close>
  "raise_last last_exception n zs =
     (case last_exception of
        Some e \<Rightarrow> \<lparr>invocations = n, slept = zs, result = Inl (ByOperation e)\<rparr>
      | None \<Rightarrow> \<lparr>invocations = n, slept = zs, result = Inl (ByHandler UnknownError)\<rparr>)"

function retry_loop ::
  "RetryHandler \<Rightarrow> (nat \<Rightarrow> ('e, 'a) outcome) \<Rightarrow> (nat \<Rightarrow> int) \<Rightarrow>
     int \<Rightarrow> 'e option \<Rightarrow> nat \<Rightarrow> rat list \<Rightarrow> ('e, 'a) retry_run" where
  "retry_loop self func hashes attempt last_exception n zs =
     (if attempt < max_retries self + 1 then
        (case func n of
           Returns v \<Rightarrow> \<lparr>invocations = n + 1, slept = zs, result = Inr v\<rparr>
         | RaisesBase b \<Rightarrow> \<lparr>invocations = n + 1, slept = zs, result = Inl (ByOperation b)\<rparr>
         | Raises e \<Rightarrow>
             if attempt = max_retries self then raise_last (Some e) (n + 1) zs
             else
               (case backoff_delay self attempt (hashes n) of
                  Inl err \<Rightarrow> \<lparr>invocations = n + 1, slept = zs, result = Inl (ByHandler err)\<rparr>
                | Inr delay \<Rightarrow>
                    retry_loop self func hashes (attempt + 1) (Some e) (n + 1) (zs @ [delay])))
      else raise_last last_exception n zs)"
  by pat_completeness auto
termination
  by (relation "measure (\<lambda>(self, func, hashes, attempt, last_exception, n, zs).
        nat (max_retries self + 1 - attempt))") auto

declare retry_loop.simps [simp del]

definition explained :: "(nat \<Rightarrow> ('e, 'a) outcome) \<Rightarrow> ('e, 'a) retry_run \<Rightarrow> bool" where
  \<comment> \<open>How the result of a run relates to the last invocation of the operation.\<close>
  "explained func r =
     (case result r of
        Inr v \<Rightarrow> func (invocations r - 1) = Returns v
      | Inl (ByOperation e) \<Rightarrow>
          func (invocations r - 1) = Raises e \<or> func (invocations r - 1) = RaisesBase e
      | Inl (ByHandler err) \<Rightarrow> err = OverflowError)"

definition RetryHandler_retry ::
  "RetryHandler \<Rightarrow> (nat \<Rightarrow> ('e, 'a) outcome) \<Rightarrow> (nat \<Rightarrow> int) \<Rightarrow> ('e, 'a) retry_run" where
  \<comment> \<open>\<^verbatim>\<open>for attempt in range(self.max_retries + 1)\<close> starts at 0, no exception seen yet.\<close>
  "RetryHandler_retry self func hashes = retry_loop self func hashes 0 None 0 []"

section \<open>Floating-point arithmetic\<close>

text \<open>
  A float is a finite double, an infinity or a NaN.  The sign of zero is not represented:
  no operation of the rate limiter tells \<open>-0.0\<close> from \<open>0.0\<close>.
\<close>

datatype float = Fin rat | PInf | NInf | NaN

function bit_length :: "int \<Rightarrow> int" where
  \<comment> \<open>The number of binary digits of a positive integer.\<close>
  "bit_length n = (if n \<le> 0 then 0 else 1 + bit_length (n div 2))"
  by pat_completeness auto
termination
  by (relation "measure nat") auto

declare bit_length.simps [simp del]

definition exponent :: "rat \<Rightarrow> int" where
  \<comment> \<open>The \<open>e\<close> with \<open>2^e \<le> \<bar>x\<bar> < 2^(e + 1)\<close>, for \<open>x \<noteq> 0\<close>.\<close>
  "exponent x =
     (if \<bar>x\<bar> \<ge> 1 then bit_length \<lfloor>\<bar>x\<bar>\<rfloor> - 1 else - bit_length (\<lceil>1 / \<bar>x\<bar>\<rceil> - 1))"

definition two_to :: "int \<Rightarrow> rat" where
  "two_to k = (if k \<ge> 0 then 2 ^ nat k else 1 / 2 ^ nat (- k))"

definition round_half_even :: "rat \<Rightarrow> int" where
  "round_half_even x =
     (let f = \<lfloor>x\<rfloor>; r = x - of_int f
      in if r < 1 / 2 then f else if r > 1 / 2 then f + 1 else if even f then f else f + 1)"

definition round_float :: "rat \<Rightarrow> float" where
  \<comment> \<open>The double nearest to \<open>x\<close>, ties to the even significand: 53 significant bits, least
     exponent \<open>-1022\<close>, and an infinity from \<open>2^1024\<close> on.\<close>
  "round_float x =
     (if x = 0 then Fin 0
      else
        let q = max (exponent x) (- 1022) - 52;
            r = of_int (round_half_even (x / two_to q)) * two_to q
        in if r \<ge> 2 ^ 1024 then PInf else if r \<le> - (2 ^ 1024) then NInf else Fin r)"

definition double_of_int :: "int \<Rightarrow> error + rat" where
  \<comment> \<open>The conversion of an integer operand of a float operation.\<close>
  "double_of_int n =
     (case float_of_int n of
        Inl err \<Rightarrow> Inl err
      | Inr x \<Rightarrow> (case round_float x of Fin y \<Rightarrow> Inr y | _ \<Rightarrow> Inl OverflowError))"

fun float_ge_int :: "float \<Rightarrow> int \<Rightarrow> bool" where
  \<comment> \<open>\<^verbatim>\<open>a >= n\<close>: a float and an integer are compared exactly.\<close>
  "float_ge_int (Fin x) n = (x \<ge> of_int n)"
| "float_ge_int PInf n = True"
| "float_ge_int NInf n = False"
| "float_ge_int NaN n = False"

fun float_sub :: "rat \<Rightarrow> float \<Rightarrow> float" where
  \<comment> \<open>\<^verbatim>\<open>x - b\<close> for a finite \<open>x\<close>.\<close>
  "float_sub x (Fin y) = round_float (x - y)"
| "float_sub x PInf = NInf"
| "float_sub x NInf = PInf"
| "float_sub x NaN = NaN"

fun float_add :: "float \<Rightarrow> rat \<Rightarrow> float" where
  \<comment> \<open>\<^verbatim>\<open>a + y\<close> for a finite \<open>y\<close>.\<close>
  "float_add (Fin x) y = round_float (x + y)"
| "float_add PInf y = PInf"
| "float_add NInf y = NInf"
| "float_add NaN y = NaN"

fun float_mul :: "float \<Rightarrow> rat \<Rightarrow> float" where
  \<comment> \<open>\<^verbatim>\<open>a * y\<close> for a finite \<open>y\<close>.\<close>
  "float_mul (Fin x) y = round_float (x * y)"
| "float_mul PInf y = (if y = 0 then NaN else if y > 0 then PInf else NInf)"
| "float_mul NInf y = (if y = 0 then NaN else if y > 0 then NInf else PInf)"
| "float_mul NaN y = NaN"

fun float_div :: "float \<Rightarrow> rat \<Rightarrow> float" where
  \<comment> \<open>\<^verbatim>\<open>a / y\<close> for a finite \<open>y\<close> other than zero.\<close>
  "float_div (Fin x) y = round_float (x / y)"
| "float_div PInf y = (if y > 0 then PInf else NInf)"
| "float_div NInf y = (if y > 0 then NInf else PInf)"
| "float_div NaN y = NaN"

definition float_div_int :: "float \<Rightarrow> int \<Rightarrow> error + float" where
  \<comment> \<open>\<^verbatim>\<open>a / n\<close>: the integer is converted, then tested for zero.\<close>
  "float_div_int a n =
     (case double_of_int n of
        Inl err \<Rightarrow> Inl err
      | Inr y \<Rightarrow> if y = 0 then Inl ZeroDivisionError else Inr (float_div a y))"

definition float_mul_int :: "float \<Rightarrow> int \<Rightarrow> error + float" where
  \<comment> \<open>\<^verbatim>\<open>a * n\<close>.\<close>
  "float_mul_int a n =
     (case double_of_int n of Inl err \<Rightarrow> Inl err | Inr y \<Rightarrow> Inr (float_mul a y))"

definition int_sub_float :: "int \<Rightarrow> float \<Rightarrow> error + float" where
  \<comment> \<open>\<^verbatim>\<open>n - a\<close>.\<close>
  "int_sub_float n a =
     (case double_of_int n of Inl err \<Rightarrow> Inl err | Inr y \<Rightarrow> Inr (float_sub y a))"

fun py_int :: "float \<Rightarrow> error + int" where
  \<comment> \<open>\<^verbatim>\<open>int(a)\<close>: truncation towards zero.\<close>
  "py_int (Fin x) = Inr (if x \<ge> 0 then \<lfloor>x\<rfloor> else \<lceil>x\<rceil>)"
| "py_int PInf = Inl OverflowError"
| "py_int NInf = Inl OverflowError"
| "py_int NaN = Inl ValueError"

section \<open>RateLimiter\<close>

record RateLimitInfo =
  limit :: int
  remaining :: int
  reset :: rat
  used :: int

record RateLimiter =
  limit :: int
  window_seconds :: int
  tokens :: int
  last_refill :: rat

definition RateLimiter_init :: "int \<Rightarrow> int \<Rightarrow> rat \<Rightarrow> RateLimiter" where
  \<comment> \<open>\<^verbatim>\<open>__init__\<close>; \<open>now\<close> is the reading of the clock at construction.\<close>
  "RateLimiter_init l window now =
     \<lparr>limit = l, window_seconds = window, tokens = l, last_refill = now\<rparr>"

definition refill :: "RateLimiter \<Rightarrow> rat \<Rightarrow> float \<Rightarrow> error + RateLimiter" where
  \<comment> \<open>Lines 55--62, and again lines 72--78.\<close>
  "refill self now time_passed =
     (if float_ge_int time_passed (window_seconds self) then
        Inr (self\<lparr>tokens := limit self, last_refill := now\<rparr>)
      else
        case float_div_int time_passed (window_seconds self) of
          Inl err \<Rightarrow> Inl err
        | Inr share \<Rightarrow>
            (case float_mul_int share (limit self) of
               Inl err \<Rightarrow> Inl err
             | Inr amount \<Rightarrow>
                 (case py_int amount of
                    Inl err \<Rightarrow> Inl err
                  | Inr tokens_to_add \<Rightarrow>
                      Inr (self\<lparr>tokens := min (limit self) (tokens self + tokens_to_add),
                                 last_refill := now\<rparr>))))"

definition sleep_time :: "RateLimiter \<Rightarrow> float \<Rightarrow> error + float" where
  \<comment> \<open>Line 66: \<^verbatim>\<open>self.window_seconds - time_passed + 1\<close>.\<close>
  "sleep_time self time_passed =
     (case int_sub_float (window_seconds self) time_passed of
        Inl err \<Rightarrow> Inl err
      | Inr d \<Rightarrow> Inr (float_add d 1))"

text \<open>
  What a completed call of \<^verbatim>\<open>acquire\<close> leaves behind: the limiter after each refill step of
  the call (the first one and those of the waiting loop, in order), the limiter after the
  consume step, the sleeps it made, and the number of clock readings taken so far.
\<close>

record acquired =
  refilled :: "RateLimiter list"
  consumed :: RateLimiter
  sleeps :: "float list"
  readings :: nat

partial_function (option) wait_for_tokens ::
  "RateLimiter \<Rightarrow> int \<Rightarrow> float \<Rightarrow> (nat \<Rightarrow> rat) \<Rightarrow> nat \<Rightarrow> RateLimiter list \<Rightarrow> float list
     \<Rightarrow> (error + acquired) option" where
  \<comment> \<open>The \<^verbatim>\<open>while\<close> loop of lines 65--78 and the consume step of line 81.  The loop need
     not end, and a sleep of infinite length does not end: not returning is the value
     \<open>None\<close>.\<close>
  "wait_for_tokens self n time_passed clock i seen zs =
     (if tokens self < n then
        (case sleep_time self time_passed of
           Inl err \<Rightarrow> Some (Inl err)
         | Inr z \<Rightarrow>
             if z = PInf then None
             else
               let now = clock i;
                   time_passed' = float_sub now (Fin (last_refill self))
               in (case refill self now time_passed' of
                     Inl err \<Rightarrow> Some (Inl err)
                   | Inr self' \<Rightarrow>
                       wait_for_tokens self' n time_passed' clock (i + 1) (seen @ [self'])
                         (zs @ [z])))
      else
        Some (Inr \<lparr>refilled = seen, consumed = self\<lparr>tokens := tokens self - n\<rparr>,
                    sleeps = zs, readings = i\<rparr>))"

definition RateLimiter_acquire ::
  "RateLimiter \<Rightarrow> int \<Rightarrow> (nat \<Rightarrow> rat) \<Rightarrow> nat \<Rightarrow> (error + acquired) option" where
  \<comment> \<open>\<open>clock i\<close> is the first reading the call takes.\<close>
  "RateLimiter_acquire self n clock i =
     (let now = clock i;
          time_passed = float_sub now (Fin (last_refill self))
      in case refill self now time_passed of
           Inl err \<Rightarrow> Some (Inl err)
         | Inr self' \<Rightarrow> wait_for_tokens self' n time_passed clock (i + 1) [self'] [])"

text \<open>
  A sequence of calls on one limiter.  It is defined when every call returns; its value is
  then what each call left behind, in order, with the limiter and the position of the
  clock at the end.
\<close>

fun acquire_calls ::
  "RateLimiter \<Rightarrow> int list \<Rightarrow> (nat \<Rightarrow> rat) \<Rightarrow> nat
     \<Rightarrow> (acquired list \<times> RateLimiter \<times> nat) option" where
  "acquire_calls self [] clock i = Some ([], self, i)"
| "acquire_calls self (n # ns) clock i =
     (case RateLimiter_acquire self n clock i of
        Some (Inr a) \<Rightarrow>
          (case acquire_calls (consumed a) ns clock (readings a) of
             Some (rest, self', j) \<Rightarrow> Some (a # rest, self', j)
           | None \<Rightarrow> None)
      | _ \<Rightarrow> None)"

fun float_nonneg :: "float \<Rightarrow> bool" where
  "float_nonneg (Fin x) = (0 \<le> x)"
| "float_nonneg PInf = True"
| "float_nonneg NInf = False"
| "float_nonneg NaN = False"

definition within_bounds :: "RateLimiter \<Rightarrow> bool" where
  \<comment> \<open>The invariant of the token bucket.\<close>
  "within_bounds self = (0 \<le> tokens self \<and> tokens self \<le> limit self)"


definition half_minute_clock :: "nat \<Rightarrow> rat" where
  \<comment> \<open>A clock that is read once every 30 seconds.\<close>
  "half_minute_clock i = 30 * of_nat i"

definition stepping_back_clock :: "nat \<Rightarrow> rat" where
  \<comment> \<open>A wall clock that is set back by 30 seconds between its second and third reading.\<close>
  "stepping_back_clock i = (if i \<le> 1 then 100 else if i = 2 then 70 else 200)"

definition half_minute_calls :: "acquired list" where
  \<comment> \<open>What three calls asking for 2, 1 and 2 tokens leave behind on a limiter of limit 2 and
     window 60 that is constructed at time 0 and read every 30 seconds.\<close>
  "half_minute_calls =
     [\<lparr>refilled = [\<lparr>limit = 2, window_seconds = 60, tokens = 2, last_refill = 30\<rparr>],
        consumed = \<lparr>limit = 2, window_seconds = 60, tokens = 0, last_refill = 30\<rparr>,
        sleeps = [], readings = 2\<rparr>,
      \<lparr>refilled = [\<lparr>limit = 2, window_seconds = 60, tokens = 1, last_refill = 60\<rparr>],
        consumed = \<lparr>limit = 2, window_seconds = 60, tokens = 0, last_refill = 60\<rparr>,
        sleeps = [], readings = 3\<rparr>,
      \<lparr>refilled = [\<lparr>limit = 2, window_seconds = 60, tokens = 1, last_refill = 90\<rparr>,
                    \<lparr>limit = 2, window_seconds = 60, tokens = 2, last_refill = 120\<rparr>],
        consumed = \<lparr>limit = 2, window_seconds = 60, tokens = 0, last_refill = 120\<rparr>,
        sleeps = [Fin 31], readings = 5\<rparr>]"

section \<open>Cache keys\<close>

text \<open>
  \<^verbatim>\<open>_generate_key\<close> serialises \<^verbatim>\<open>{'endpoint': endpoint, 'params': params or {}}\<close> with
  \<^verbatim>\<open>json.dumps(..., sort_keys=True)\<close> and takes the hexadecimal MD5 digest of the text.
  Both library functions are written out.  A Python string is a \<^typ>\<open>string\<close> whose
  characters are the code points below 256; a dictionary is the list of its items in
  insertion order.  \<^verbatim>\<open>dumps\<close> follows the encoder of the standard library with its default
  separators and \<^verbatim>\<open>ensure_ascii\<close>; the digest follows RFC 1321.
\<close>

datatype json =
    JNull | JBool bool | JInt int
  | JFloat string            \<comment> \<open>a float, given by the text \<^verbatim>\<open>float.__repr__\<close> prints for it\<close>
  | JStr string | JList "json list"
  | JDict "(string \<times> json) list"   \<comment> \<open>items in insertion order, keys distinct\<close>

definition hex_digit :: "nat \<Rightarrow> char" where
  "hex_digit n = ''0123456789abcdef'' ! n"

definition escape_char :: "char \<Rightarrow> string" where
  "escape_char c =
     (if c = CHR 0x22 then [CHR 0x5C, CHR 0x22]
      else if c = CHR 0x5C then [CHR 0x5C, CHR 0x5C]
      else if c = CHR 0x0A then [CHR 0x5C, CHR ''n'']
      else if c = CHR 0x0D then [CHR 0x5C, CHR ''r'']
      else if c = CHR 0x09 then [CHR 0x5C, CHR ''t'']
      else if c = CHR 0x08 then [CHR 0x5C, CHR ''b'']
      else if c = CHR 0x0C then [CHR 0x5C, CHR ''f'']
      else if (of_char c :: nat) < 0x20 \<or> (of_char c :: nat) > 0x7E then
        [CHR 0x5C, CHR ''u'', CHR ''0'', CHR ''0'',
         hex_digit (of_char c div 16), hex_digit (of_char c mod 16)]
      else [c])"

definition encode_basestring_ascii :: "string \<Rightarrow> string" where
  "encode_basestring_ascii s = [CHR 0x22] @ concat (map escape_char s) @ [CHR 0x22]"

fun string_of_nat :: "nat \<Rightarrow> string" where
  "string_of_nat n =
     (if n < 10 then [hex_digit n] else string_of_nat (n div 10) @ [hex_digit (n mod 10)])"

declare string_of_nat.simps [simp del]

definition string_of_int :: "int \<Rightarrow> string" where
  "string_of_int i = (if i < 0 then CHR ''-'' # string_of_nat (nat (- i)) else string_of_nat (nat i))"

fun join :: "string \<Rightarrow> string list \<Rightarrow> string" where
  "join sep [] = []"
| "join sep [x] = x"
| "join sep (x # y # ys) = x @ sep @ join sep (y # ys)"

fun dumps :: "json \<Rightarrow> string" where
  "dumps JNull = ''null''"
| "dumps (JBool b) = (if b then ''true'' else ''false'')"
| "dumps (JInt i) = string_of_int i"
| "dumps (JFloat r) =
     (if r = ''nan'' then ''NaN'' else if r = ''inf'' then ''Infinity''
      else if r = ''-inf'' then ''-Infinity'' else r)"
| "dumps (JStr s) = encode_basestring_ascii s"
| "dumps (JList xs) = ''['' @ join '', '' (map dumps xs) @ '']''"
| "dumps (JDict kvs) =
     ''{'' @ join '', '' (map (\<lambda>(k, v). encode_basestring_ascii k @ '': '' @ dumps v)
                            (sort_key fst kvs)) @ ''}''"

type_synonym byte = "8 word"
type_synonym md5_state = "32 word \<times> 32 word \<times> 32 word \<times> 32 word"

definition md5_K :: "32 word list" where
  "md5_K =
    [0xd76aa478, 0xe8c7b756, 0x242070db, 0xc1bdceee,
     0xf57c0faf, 0x4787c62a, 0xa8304613, 0xfd469501,
     0x698098d8, 0x8b44f7af, 0xffff5bb1, 0x895cd7be,
     0x6b901122, 0xfd987193, 0xa679438e, 0x49b40821,
     0xf61e2562, 0xc040b340, 0x265e5a51, 0xe9b6c7aa,
     0xd62f105d, 0x02441453, 0xd8a1e681, 0xe7d3fbc8,
     0x21e1cde6, 0xc33707d6, 0xf4d50d87, 0x455a14ed,
     0xa9e3e905, 0xfcefa3f8, 0x676f02d9, 0x8d2a4c8a,
     0xfffa3942, 0x8771f681, 0x6d9d6122, 0xfde5380c,
     0xa4beea44, 0x4bdecfa9, 0xf6bb4b60, 0xbebfbc70,
     0x289b7ec6, 0xeaa127fa, 0xd4ef3085, 0x04881d05,
     0xd9d4d039, 0xe6db99e5, 0x1fa27cf8, 0xc4ac5665,
     0xf4292244, 0x432aff97, 0xab9423a7, 0xfc93a039,
     0x655b59c3, 0x8f0ccc92, 0xffeff47d, 0x85845dd1,
     0x6fa87e4f, 0xfe2ce6e0, 0xa3014314, 0x4e0811a1,
     0xf7537e82, 0xbd3af235, 0x2ad7d2bb, 0xeb86d391]"

definition md5_S :: "nat list" where
  "md5_S =
    [7, 12, 17, 22, 7, 12, 17, 22, 7, 12, 17, 22, 7, 12, 17, 22,
     5, 9, 14, 20, 5, 9, 14, 20, 5, 9, 14, 20, 5, 9, 14, 20,
     4, 11, 16, 23, 4, 11, 16, 23, 4, 11, 16, 23, 4, 11, 16, 23,
     6, 10, 15, 21, 6, 10, 15, 21, 6, 10, 15, 21, 6, 10, 15, 21]"

definition rotl32 :: "32 word \<Rightarrow> nat \<Rightarrow> 32 word" where
  "rotl32 x n = push_bit n x OR drop_bit (32 - n) x"

definition md5_round :: "32 word list \<Rightarrow> md5_state \<Rightarrow> nat \<Rightarrow> md5_state" where
  "md5_round M st i =
     (case st of (A, B, C, D) \<Rightarrow>
        let (F, g) =
              (if i < 16 then ((B AND C) OR (NOT B AND D), i)
               else if i < 32 then ((D AND B) OR (NOT D AND C), (5 * i + 1) mod 16)
               else if i < 48 then (B XOR C XOR D, (3 * i + 5) mod 16)
               else (C XOR (B OR NOT D), (7 * i) mod 16));
            F' = F + A + md5_K ! i + M ! g
        in (D, B + rotl32 F' (md5_S ! i), B, C))"

definition md5_chunk :: "md5_state \<Rightarrow> 32 word list \<Rightarrow> md5_state" where
  "md5_chunk st M =
     (case st of (a0, b0, c0, d0) \<Rightarrow>
        case foldl (md5_round M) st [0..<64] of (A, B, C, D) \<Rightarrow>
          (a0 + A, b0 + B, c0 + C, d0 + D))"

definition le_word :: "byte list \<Rightarrow> 32 word" where
  "le_word bs = foldr (\<lambda>b w. ucast b OR push_bit 8 w) bs 0"

definition words_of :: "byte list \<Rightarrow> 32 word list" where
  "words_of bs = map (\<lambda>j. le_word (take 4 (drop (4 * j) bs))) [0..<16]"

definition md5_pad :: "byte list \<Rightarrow> byte list" where
  "md5_pad msg =
     msg @ [0x80] @ replicate ((119 - length msg mod 64) mod 64) 0
       @ map (\<lambda>i. ucast (drop_bit (8 * i) (of_nat (8 * length msg) :: 64 word))) [0..<8]"

fun md5_blocks :: "md5_state \<Rightarrow> byte list \<Rightarrow> md5_state" where
  "md5_blocks st bs =
     (if length bs < 64 then st
      else md5_blocks (md5_chunk st (words_of (take 64 bs))) (drop 64 bs))"

declare md5_blocks.simps [simp del]

definition le_bytes :: "32 word \<Rightarrow> byte list" where
  "le_bytes w = [ucast w, ucast (drop_bit 8 w), ucast (drop_bit 16 w), ucast (drop_bit 24 w)]"

definition hex_byte :: "byte \<Rightarrow> string" where
  "hex_byte b = [hex_digit (unat b div 16), hex_digit (unat b mod 16)]"

definition md5_hexdigest :: "string \<Rightarrow> string" where
  "md5_hexdigest s =
     (case md5_blocks (0x67452301, 0xefcdab89, 0x98badcfe, 0x10325476)
             (md5_pad (map (\<lambda>c. of_nat (of_char c)) s)) of
        (a, b, c, d) \<Rightarrow> concat (map hex_byte (le_bytes a @ le_bytes b @ le_bytes c @ le_bytes d)))"

definition generate_key :: "string \<Rightarrow> (string \<times> json) list option \<Rightarrow> string" where
  \<comment> \<open>\<^verbatim>\<open>params or {}\<close>: \<^verbatim>\<open>None\<close> and the empty dictionary both give \<^verbatim>\<open>{}\<close>.\<close>
  "generate_key endpoint params =
     (let key_data = JDict [(''endpoint'', JStr endpoint),
                            (''params'', JDict (case params of None \<Rightarrow> [] | Some ps \<Rightarrow> ps))];
          key_string = dumps key_data
      in md5_hexdigest key_string)"

section \<open>MemoryCache\<close>

text \<open>
  The two dictionaries of the cache keep their insertion order, which decides which of
  several oldest entries \<^verbatim>\<open>min\<close> finds first.
\<close>

fun dict_set :: "'k \<Rightarrow> 'v \<Rightarrow> ('k \<times> 'v) list \<Rightarrow> ('k \<times> 'v) list" where
  \<comment> \<open>\<^verbatim>\<open>d[k] = v\<close>: a key that is present keeps its place, a new one goes to the end.\<close>
  "dict_set k v [] = [(k, v)]"
| "dict_set k v (p # d) = (if fst p = k then (k, v) # d else p # dict_set k v d)"

definition dict_del :: "'k \<Rightarrow> ('k \<times> 'v) list \<Rightarrow> error + ('k \<times> 'v) list" where
  \<comment> \<open>\<^verbatim>\<open>del d[k]\<close>\<close>
  "dict_del k d =
     (if k \<in> fst ` set d then Inr (filter (\<lambda>p. fst p \<noteq> k) d) else Inl KeyError)"

fun min_by_value :: "('k \<times> rat) \<Rightarrow> ('k \<times> rat) list \<Rightarrow> ('k \<times> rat)" where
  \<comment> \<open>\<^verbatim>\<open>min(items, key=lambda x: x[1])\<close> on the items \<open>best # rest\<close>: the first of the
     smallest.\<close>
  "min_by_value best [] = best"
| "min_by_value best (p # ps) = min_by_value (if snd p < snd best then p else best) ps"

record 'v CacheEntry =
  data :: 'v
  expires_at :: rat

definition CacheEntry_is_expired :: "'v CacheEntry \<Rightarrow> rat \<Rightarrow> bool" where
  \<comment> \<open>\<^verbatim>\<open>time.time() > self.expires_at\<close>\<close>
  "CacheEntry_is_expired self now = (now > expires_at self)"

record 'v MemoryCache =
  default_ttl :: rat
  max_size :: int
  cache :: "(string \<times> 'v CacheEntry) list"
  access_times :: "(string \<times> rat) list"

definition MemoryCache_init :: "rat \<Rightarrow> int \<Rightarrow> 'v MemoryCache" where
  "MemoryCache_init ttl n =
     \<lparr>default_ttl = ttl, max_size = n, cache = [], access_times = []\<rparr>"

definition MemoryCache_get ::
  "'v MemoryCache \<Rightarrow> string \<Rightarrow> (string \<times> json) list option \<Rightarrow> rat \<Rightarrow> rat
     \<Rightarrow> 'v option \<times> 'v MemoryCache" where
  \<comment> \<open>\<open>t1\<close> is the reading of the clock in \<^verbatim>\<open>is_expired\<close>, \<open>t2\<close> the one that becomes the
     access time.  The value returned is paired with the cache as the call leaves it.\<close>
  "MemoryCache_get self endpoint params t1 t2 =
     (let key = generate_key endpoint params
      in case map_of (cache self) key of
           None \<Rightarrow> (None, self)
         | Some entry \<Rightarrow>
             if CacheEntry_is_expired entry t1 then
               (None,
                self\<lparr>cache := filter (\<lambda>p. fst p \<noteq> key) (cache self),
                     access_times :=
                       (if key \<in> fst ` set (access_times self)
                        then filter (\<lambda>p. fst p \<noteq> key) (access_times self)
                        else access_times self)\<rparr>)
             else
               (Some (data entry),
                self\<lparr>access_times := dict_set key t2 (access_times self)\<rparr>))"

definition MemoryCache_evict_oldest :: "'v MemoryCache \<Rightarrow> error + 'v MemoryCache" where
  "MemoryCache_evict_oldest self =
     (case access_times self of
        [] \<Rightarrow> Inr self
      | p # ps \<Rightarrow>
          (let oldest_key = fst (min_by_value p ps)
           in (case dict_del oldest_key (cache self) of
                 Inl err \<Rightarrow> Inl err
               | Inr c \<Rightarrow>
                   (case dict_del oldest_key (access_times self) of
                      Inl err \<Rightarrow> Inl err
                    | Inr a \<Rightarrow> Inr (self\<lparr>cache := c, access_times := a\<rparr>)))))"

definition MemoryCache_set ::
  "'v MemoryCache \<Rightarrow> string \<Rightarrow> (string \<times> json) list option \<Rightarrow> 'v \<Rightarrow> rat option
     \<Rightarrow> rat \<Rightarrow> rat \<Rightarrow> error + 'v MemoryCache" where
  \<comment> \<open>\<open>t1\<close> is the reading of the clock that the expiry is computed from, \<open>t2\<close> the one
     that becomes the access time; \<^verbatim>\<open>ttl or self.default_ttl\<close> replaces \<^verbatim>\<open>None\<close> and 0.\<close>
  "MemoryCache_set self endpoint params v ttl t1 t2 =
     (let key = generate_key endpoint params
      in case (if int (length (cache self)) \<ge> max_size self
               then MemoryCache_evict_oldest self else Inr self) of
           Inl err \<Rightarrow> Inl err
         | Inr self' \<Rightarrow>
             let expires_at =
                   t1 + (case ttl of
                           None \<Rightarrow> default_ttl self
                         | Some t \<Rightarrow> if t = 0 then default_ttl self else t)
             in Inr (self'\<lparr>cache :=
                              dict_set key \<lparr>data = v, expires_at = expires_at\<rparr> (cache self'),
                            access_times := dict_set key t2 (access_times self')\<rparr>))"

definition MemoryCache_clear :: "'v MemoryCache \<Rightarrow> 'v MemoryCache" where
  "MemoryCache_clear self = self\<lparr>cache := [], access_times := []\<rparr>"

definition MemoryCache_size :: "'v MemoryCache \<Rightarrow> nat" where
  "MemoryCache_size self = length (cache self)"

definition consistent :: "'v MemoryCache \<Rightarrow> bool" where
  \<comment> \<open>What Python's dictionaries and the code together maintain: keys are unique, and
     the two dictionaries have the same keys.\<close>
  "consistent self =
     (distinct (map fst (cache self)) \<and> distinct (map fst (access_times self)) \<and>
      fst ` set (cache self) = fst ` set (access_times self))"

text \<open>
  A run of \<^verbatim>\<open>set\<close> calls, each with its endpoint, parameters, value and the common reading
  of the clock; it stops at the first call that raises.
\<close>

definition call_key :: "string \<times> (string \<times> json) list option \<times> 'v \<times> rat \<Rightarrow> string" where
  "call_key c = (case c of (endpoint, params, v, t) \<Rightarrow> generate_key endpoint params)"

fun set_calls ::
  "'v MemoryCache \<Rightarrow> (string \<times> (string \<times> json) list option \<times> 'v \<times> rat) list
     \<Rightarrow> error + 'v MemoryCache" where
  "set_calls self [] = Inr self"
| "set_calls self ((endpoint, params, v, t) # calls) =
     (case MemoryCache_set self endpoint params v None t t of
        Inl err \<Rightarrow> Inl err
      | Inr self' \<Rightarrow> set_calls self' calls)"

definition full_cache :: "nat MemoryCache" where
  \<comment> \<open>A cache of capacity 2 that holds the entries of the endpoints \<^verbatim>\<open>a\<close> and \<^verbatim>\<open>b\<close>.\<close>
  "full_cache =
     \<lparr>default_ttl = 300, max_size = 2,
        cache = [(generate_key ''a'' None, \<lparr>data = 1, expires_at = 300\<rparr>),
                 (generate_key ''b'' None, \<lparr>data = 2, expires_at = 301\<rparr>)],
        access_times = [(generate_key ''a'' None, 0), (generate_key ''b'' None, 1)]\<rparr>"

definition three_calls :: "(string \<times> (string \<times> json) list option \<times> nat \<times> rat) list" where
  "three_calls = [(''a'', None, 1, 0), (''b'', None, 2, 1), (''c'', None, 3, 2)]"

section \<open>HTTPClientHelper\<close>

text \<open>
  The helpers call into Python's library: \<^verbatim>\<open>int\<close> and \<^verbatim>\<open>float\<close> on a string (\<open>None\<close> stands
  for their \<^verbatim>\<open>ValueError\<close>), \<^verbatim>\<open>json.loads\<close> and \<^verbatim>\<open>str\<close>.  These are parameters of the model.
  On the default of \<^verbatim>\<open>headers.get(name, 0)\<close>, the integer 0, \<^verbatim>\<open>int\<close> gives 0 and \<^verbatim>\<open>float\<close>
  gives 0.0.
\<close>

definition HTTPClientHelper_parse_rate_limit ::
  "(string \<Rightarrow> int option) \<Rightarrow> (string \<Rightarrow> rat option) \<Rightarrow> (string \<rightharpoonup> string)
     \<Rightarrow> RateLimitInfo option" where
  "HTTPClientHelper_parse_rate_limit int_of_str float_of_str headers =
     (case (case headers ''x-ratelimit-limit'' of None \<Rightarrow> Some 0 | Some s \<Rightarrow> int_of_str s) of
        None \<Rightarrow> None
      | Some l \<Rightarrow>
          (case (case headers ''x-ratelimit-remaining'' of
                   None \<Rightarrow> Some 0 | Some s \<Rightarrow> int_of_str s) of
             None \<Rightarrow> None
           | Some r \<Rightarrow>
               (case (case headers ''x-ratelimit-reset'' of
                        None \<Rightarrow> Some 0 | Some s \<Rightarrow> float_of_str s) of
                  None \<Rightarrow> None
                | Some t \<Rightarrow>
                    Some \<lparr>RateLimitInfo.limit = l, remaining = r, reset = t, used = l - r\<rparr>)))"

definition HTTPClientHelper_should_retry :: "int \<Rightarrow> bool" where
  "HTTPClientHelper_should_retry status_code = (status_code \<in> {429, 500, 502, 503, 504})"

definition HTTPClientHelper_get_error_message ::
  "(string \<Rightarrow> error + json) \<Rightarrow> (json \<Rightarrow> string) \<Rightarrow> string \<Rightarrow> error + json" where
  \<comment> \<open>Only \<^verbatim>\<open>JSONDecodeError\<close> is caught.  The value returned is a JSON value: the
     \<^verbatim>\<open>message\<close> field as decoded, or a string.\<close>
  "HTTPClientHelper_get_error_message loads str_of response_text =
     (case loads response_text of
        Inr (JDict d) \<Rightarrow>
          (case map_of d ''message'' of
             Some m \<Rightarrow> Inr m
           | None \<Rightarrow> Inr (JStr (str_of (JDict d))))
      | Inr _ \<Rightarrow> Inr (JStr response_text)
      | Inl JSONDecodeError \<Rightarrow> Inr (JStr response_text)
      | Inl err \<Rightarrow> Inl err)"

definition message_body :: string where
  \<comment> \<open>The body \<^verbatim>\<open>{"message": 1}\<close>.\<close>
  "message_body = [CHR ''{'', CHR 0x22] @ ''message'' @ [CHR 0x22] @ '': 1}''"

section \<open>Properties of RetryHandler\<close>

lemma pow2_in_range: "k < 1024 \<Longrightarrow> \<not> (\<bar>2 ^ k :: int\<bar> \<ge> 2 ^ 1024 - 2 ^ 970)"
proof -
  assume "k < 1024"
  then have "(2::int) ^ k \<le> 2 ^ 1023" by (intro power_increasing) auto
  moreover have "(2::int) ^ 1023 < 2 ^ 1024 - 2 ^ 970" by simp
  ultimately show ?thesis by simp
qed

lemma pow2_out_of_range: "1024 \<le> k \<Longrightarrow> \<bar>2 ^ k :: int\<bar> \<ge> 2 ^ 1024 - 2 ^ 970"
proof -
  assume "1024 \<le> k"
  then have "(2::int) ^ 1024 \<le> 2 ^ k" by (intro power_increasing) auto
  then show ?thesis by simp
qed

lemma backoff_delay_in_range:
  "0 \<le> attempt \<Longrightarrow> attempt < 1024 \<Longrightarrow> \<exists>d. backoff_delay self attempt h = Inr d"
  using pow2_in_range [of "nat attempt"]
  by (simp add: backoff_delay_def float_of_int_def Let_def)

lemma backoff_delay_overflow:
  "1024 \<le> attempt \<Longrightarrow> backoff_delay self attempt h = Inl OverflowError"
  using pow2_out_of_range [of "nat attempt"]
  by (simp add: backoff_delay_def float_of_int_def)

lemma retry_loop_exhausts:
  assumes fails: "\<forall>i. func i = Raises (exc i)" and small: "max_retries self \<le> 1024"
  shows "0 \<le> attempt \<Longrightarrow> attempt \<le> max_retries self \<Longrightarrow>
    invocations (retry_loop self func hashes attempt prev n zs)
      = n + nat (max_retries self - attempt) + 1 \<and>
    result (retry_loop self func hashes attempt prev n zs)
      = Inl (ByOperation (exc (n + nat (max_retries self - attempt))))"
proof (induction "nat (max_retries self - attempt)" arbitrary: attempt prev n zs)
  case 0
  then have "attempt = max_retries self" by simp
  then show ?case
    by (subst (1 2) retry_loop.simps) (simp add: fails raise_last_def)
next
  case (Suc k)
  then have lt: "attempt < max_retries self" by simp
  with Suc.prems small obtain d where d: "backoff_delay self attempt (hashes n) = Inr d"
    using backoff_delay_in_range [of attempt self "hashes n"] by auto
  have k: "k = nat (max_retries self - (attempt + 1))" using Suc.hyps(2) by simp
  have step: "retry_loop self func hashes attempt prev n zs
      = retry_loop self func hashes (attempt + 1) (Some (exc n)) (n + 1) (zs @ [d])"
    using lt by (subst retry_loop.simps) (simp add: fails d)
  have n: "n + 1 + nat (max_retries self - (attempt + 1)) = n + nat (max_retries self - attempt)"
    using lt by simp
  have "0 \<le> attempt + 1" "attempt + 1 \<le> max_retries self"
    using Suc.prems lt by simp_all
  from Suc.hyps(1) [OF k this, of "Some (exc n)" "n + 1" "zs @ [d]"]
  show ?case
    unfolding step n [symmetric] .
qed

lemma retry_loop_overflows:
  assumes fails: "\<forall>i. func i = Raises (exc i)" and large: "1024 < max_retries self"
  shows "0 \<le> attempt \<Longrightarrow> attempt \<le> 1024 \<Longrightarrow>
    invocations (retry_loop self func hashes attempt prev n zs) = n + nat (1024 - attempt) + 1 \<and>
    result (retry_loop self func hashes attempt prev n zs) = Inl (ByHandler OverflowError)"
proof (induction "nat (1024 - attempt)" arbitrary: attempt prev n zs)
  case 0
  then have "attempt = 1024" by simp
  then show ?case
    using large backoff_delay_overflow [of 1024 self "hashes n"]
    by (subst (1 2) retry_loop.simps) (simp add: fails)
next
  case (Suc k)
  then have lt: "attempt < 1024" by simp
  with Suc.prems obtain d where d: "backoff_delay self attempt (hashes n) = Inr d"
    using backoff_delay_in_range [of attempt self "hashes n"] by auto
  have k: "k = nat (1024 - (attempt + 1))" using Suc.hyps(2) by simp
  have step: "retry_loop self func hashes attempt prev n zs
      = retry_loop self func hashes (attempt + 1) (Some (exc n)) (n + 1) (zs @ [d])"
    using lt large by (subst retry_loop.simps) (simp add: fails d)
  have n: "n + 1 + nat (1024 - (attempt + 1)) = n + nat (1024 - attempt)"
    using lt by simp
  have "0 \<le> attempt + 1" "attempt + 1 \<le> 1024"
    using Suc.prems lt by simp_all
  from Suc.hyps(1) [OF k this, of "Some (exc n)" "n + 1" "zs @ [d]"]
  show ?case
    unfolding step n [symmetric] .
qed

text \<open>
  C3, at the input where the code departs from it.  The claim is that for every
  \<open>max_retries = m \<ge> 0\<close> an operation that raises on every invocation is invoked exactly
  \<open>m + 1\<close> times and that the exception of the final attempt is raised again, unchanged.
  With the default delays (\<^verbatim>\<open>base_delay = 1.0\<close>, \<^verbatim>\<open>max_delay = 60.0\<close>) and \<open>m = 1025\<close> the
  operation is invoked 1025 times, not 1026: after the failure of attempt 1024 the handler
  computes \<^verbatim>\<open>self.base_delay * (2 ** attempt)\<close> before it takes the minimum with
  \<^verbatim>\<open>max_delay\<close>, the conversion of \<open>2^1024\<close> to a float raises \<^verbatim>\<open>OverflowError\<close> inside the
  \<^verbatim>\<open>except\<close> block, and that exception, not the operation's, leaves \<^verbatim>\<open>retry\<close>.
\<close>

theorem retry_exhaustion_overflow:
  defines "self \<equiv> \<lparr>max_retries = 1025, base_delay = 1, max_delay = 60\<rparr>"
  shows "invocations (RetryHandler_retry self (\<lambda>i. Raises e :: ('e, 'a) outcome) hashes) = 1025 \<and>
         result (RetryHandler_retry self (\<lambda>i. Raises e :: ('e, 'a) outcome) hashes)
           = Inl (ByHandler OverflowError)"
  unfolding RetryHandler_retry_def
  using retry_loop_overflows [of "\<lambda>i. Raises e" "\<lambda>i. e" self 0 hashes None 0 "[]"]
  by (simp add: self_def)

text \<open>
  Within the range of the backoff computation the handler does what its docstring says:
  with \<open>0 \<le> max_retries \<le> 1024\<close> an operation that raises on every invocation is invoked
  \<open>max_retries + 1\<close> times, and the exception of the last invocation is raised again.
\<close>

theorem retry_exhaustion:
  assumes "0 \<le> max_retries self" "max_retries self \<le> 1024" "\<forall>i. func i = Raises (exc i)"
  shows "invocations (RetryHandler_retry self func hashes) = nat (max_retries self) + 1 \<and>
         result (RetryHandler_retry self func hashes)
           = Inl (ByOperation (exc (nat (max_retries self))))"
  unfolding RetryHandler_retry_def
  using retry_loop_exhausts [OF assms(3) assms(2), of 0 hashes None 0 "[]"] assms(1)
  by simp

lemma backoff_delay_error: "backoff_delay self attempt h = Inl err \<Longrightarrow> err = OverflowError"
  by (auto simp: backoff_delay_def float_of_int_def Let_def split: if_splits)

lemma retry_loop_explained:
  "attempt \<le> max_retries self \<Longrightarrow>
     n < invocations (retry_loop self func hashes attempt prev n zs) \<and>
     explained func (retry_loop self func hashes attempt prev n zs)"
proof (induction self func hashes attempt prev n zs rule: retry_loop.induct)
  case (1 self func hashes attempt prev n zs)
  show ?case
  proof (cases "func n")
    case (Returns v)
    with 1(2) show ?thesis
      by (subst (1 2) retry_loop.simps) (simp add: explained_def)
  next
    case (RaisesBase b)
    with 1(2) show ?thesis
      by (subst (1 2) retry_loop.simps) (simp add: explained_def)
  next
    case (Raises e)
    show ?thesis
    proof (cases "attempt = max_retries self")
      case True
      with Raises show ?thesis
        by (subst (1 2) retry_loop.simps) (simp add: explained_def raise_last_def)
    next
      case False
      with 1(2) have lt: "attempt < max_retries self + 1" "attempt + 1 \<le> max_retries self"
        by simp_all
      show ?thesis
      proof (cases "backoff_delay self attempt (hashes n)")
        case (Inl err)
        with Raises False lt backoff_delay_error [OF Inl] show ?thesis
          by (subst (1 2) retry_loop.simps) (simp add: explained_def)
      next
        case (Inr d)
        from 1(1) [OF lt(1) Raises False Inr lt(2)] Raises False lt Inr show ?thesis
          by (subst (1 2) retry_loop.simps) simp
      qed
    qed
  qed
qed

lemma retry_explained:
  "0 \<le> max_retries self \<Longrightarrow> explained func (RetryHandler_retry self func hashes)"
  unfolding RetryHandler_retry_def using retry_loop_explained [of 0 self 0 func hashes None "[]"]
  by simp

text \<open>
  With \<open>max_retries \<ge> 0\<close> the loop body runs at least once, so the statement after the
  loop never finds \<^verbatim>\<open>last_exception\<close> unset: \<^verbatim>\<open>Exception("Unknown error occurred")\<close> is never
  raised.
\<close>

lemma retry_fallback_unreachable:
  "0 \<le> max_retries self \<Longrightarrow>
     result (RetryHandler_retry self func hashes) \<noteq> Inl (ByHandler UnknownError)"
  using retry_explained [of self func hashes] by (auto simp: explained_def)

text \<open>
  C10, where the code departs from it.  The claim is that \<^verbatim>\<open>retry\<close> either returns a value
  that an invocation of the operation produced or raises an exception that the last
  invocation raised.  When \<open>max_retries\<close> exceeds 1024 and the operation raises every time,
  \<^verbatim>\<open>retry\<close> raises \<^verbatim>\<open>OverflowError\<close>, which no invocation of the operation raised: it comes
  from the handler's own backoff computation at attempt 1024.
\<close>

theorem retry_overflow_not_from_operation:
  assumes "1024 < max_retries self" and "\<forall>i. func i = Raises (exc i)"
  shows "result (RetryHandler_retry self func hashes) = Inl (ByHandler OverflowError)"
  unfolding RetryHandler_retry_def
  using retry_loop_overflows [OF assms(2) assms(1), of 0 hashes None 0 "[]"]
  by simp

theorem retry_overflow_not_from_operation_witness:
  "(1024::int) < max_retries \<lparr>max_retries = 2000, base_delay = 1, max_delay = 0\<rparr> \<and>
   (\<forall>i. (Raises i :: (nat, unit) outcome) = Raises i) \<and>
   result (RetryHandler_retry \<lparr>max_retries = 2000, base_delay = 1, max_delay = 0\<rparr>
       (\<lambda>i. Raises i :: (nat, unit) outcome) (\<lambda>i. 0)) = Inl (ByHandler OverflowError)"
  using retry_overflow_not_from_operation
    [of "\<lparr>max_retries = 2000, base_delay = 1, max_delay = 0\<rparr>"
        "\<lambda>i. Raises i :: (nat, unit) outcome" "\<lambda>i. i" "\<lambda>i. 0"]
  by simp

section \<open>Properties of RateLimiter\<close>

lemmas float_eval = round_float_def exponent_def bit_length.simps two_to_def
  round_half_even_def Let_def double_of_int_def float_of_int_def float_div_int_def
  float_mul_int_def int_sub_float_def sleep_time_def

lemma two_to_pos: "0 < two_to k"
  by (simp add: two_to_def)

lemma round_half_even_nonneg: "0 \<le> x \<Longrightarrow> 0 \<le> round_half_even x"
  by (simp add: round_half_even_def Let_def)

lemma round_float_nonneg: "0 \<le> x \<Longrightarrow> float_nonneg (round_float x)"
proof -
  assume x: "0 \<le> x"
  define q where "q = max (exponent x) (- 1022) - 52"
  have "0 \<le> x / two_to q"
    using x two_to_pos [of q] by simp
  then have "0 \<le> round_half_even (x / two_to q)"
    by (rule round_half_even_nonneg)
  then have "0 \<le> rat_of_int (round_half_even (x / two_to q)) * two_to q"
    using two_to_pos [of q] by simp
  then show ?thesis
    by (simp add: round_float_def Let_def q_def)
qed

lemma double_of_int_nonneg: "double_of_int n = Inr y \<Longrightarrow> 0 \<le> n \<Longrightarrow> 0 \<le> y"
  using round_float_nonneg [of "of_int n"]
  by (auto simp: double_of_int_def float_of_int_def split: if_splits float.splits)

lemma refill_cases:
  assumes "refill s now tp = Inr s'"
  shows "limit s' = limit s \<and> window_seconds s' = window_seconds s \<and> last_refill s' = now
           \<and> tokens s' \<le> limit s'"
  using assms by (auto simp: refill_def split: if_splits sum.splits)

lemma float_div_nonneg: "float_nonneg a \<Longrightarrow> 0 \<le> y \<Longrightarrow> y \<noteq> 0 \<Longrightarrow> float_nonneg (float_div a y)"
  by (cases a) (simp_all add: round_float_nonneg)

lemma float_mul_nonneg:
  "float_nonneg a \<Longrightarrow> 0 \<le> y \<Longrightarrow> float_mul a y = NaN \<or> float_nonneg (float_mul a y)"
  by (cases a) (simp_all add: round_float_nonneg)

lemma py_int_nonneg: "py_int a = Inr k \<Longrightarrow> float_nonneg a \<Longrightarrow> 0 \<le> k"
  by (cases a) auto

lemma refill_nonneg:
  assumes "refill s now tp = Inr s'" "0 \<le> tokens s" "0 \<le> limit s" "float_nonneg tp"
  shows "0 \<le> tokens s'"
proof (cases "float_ge_int tp (window_seconds s)")
  case True
  with assms show ?thesis by (auto simp: refill_def)
next
  case False
  with assms(1) obtain share amount k where
    share: "float_div_int tp (window_seconds s) = Inr share"
    and amount: "float_mul_int share (limit s) = Inr amount"
    and k: "py_int amount = Inr k"
    and s': "s' = s\<lparr>tokens := min (limit s) (tokens s + k), last_refill := now\<rparr>"
    by (auto simp: refill_def split: sum.splits)
  from False assms(4) have w: "0 \<le> window_seconds s"
    by (cases tp) auto
  from share obtain y where y: "double_of_int (window_seconds s) = Inr y" "y \<noteq> 0"
    "share = float_div tp y"
    by (auto simp: float_div_int_def split: sum.splits if_splits)
  from double_of_int_nonneg [OF y(1) w] have "0 \<le> y" .
  with y assms(4) have sh: "float_nonneg share"
    by (simp add: float_div_nonneg)
  from amount obtain z where z: "double_of_int (limit s) = Inr z" "amount = float_mul share z"
    by (auto simp: float_mul_int_def split: sum.splits)
  from double_of_int_nonneg [OF z(1) assms(3)] have "0 \<le> z" .
  from float_mul_nonneg [OF sh this] z(2) k have "float_nonneg amount"
    by auto
  from py_int_nonneg [OF k this] assms(2,3) show ?thesis
    by (simp add: s')
qed









lemma wait_within_bounds:
  assumes "wait_for_tokens s n tp clock i seen zs = Some r"
  shows "\<forall>a. r = Inr a \<longrightarrow> (\<forall>j. clock j \<le> clock (Suc j)) \<longrightarrow> last_refill s \<le> clock i \<longrightarrow>
           0 \<le> limit s \<longrightarrow> within_bounds s \<longrightarrow> 1 \<le> n \<longrightarrow> (\<forall>x\<in>set seen. within_bounds x) \<longrightarrow>
           (\<forall>x\<in>set (refilled a). within_bounds x) \<and> within_bounds (consumed a) \<and>
           limit (consumed a) = limit s \<and> last_refill (consumed a) \<le> clock (readings a)"
proof (rule wait_for_tokens.raw_induct
    [where P = "\<lambda>s n tp clock i seen zs r.
       \<forall>a. r = Inr a \<longrightarrow> (\<forall>j. clock j \<le> clock (Suc j)) \<longrightarrow> last_refill s \<le> clock i \<longrightarrow>
           0 \<le> limit s \<longrightarrow> within_bounds s \<longrightarrow> 1 \<le> n \<longrightarrow> (\<forall>x\<in>set seen. within_bounds x) \<longrightarrow>
           (\<forall>x\<in>set (refilled a). within_bounds x) \<and> within_bounds (consumed a) \<and>
           limit (consumed a) = limit s \<and> last_refill (consumed a) \<le> clock (readings a)",
     OF _ assms], goal_cases)
  case (1 wait s n tp clock i seen zs r)
  show ?case
  proof (intro allI impI)
    fix a
    assume r: "r = Inr a" and mono: "\<forall>j. clock j \<le> clock (Suc j)"
      and last: "last_refill s \<le> clock i" and lim: "0 \<le> limit s"
      and inv: "within_bounds s" and n: "1 \<le> n" and seen: "\<forall>x\<in>set seen. within_bounds x"
    show "(\<forall>x\<in>set (refilled a). within_bounds x) \<and> within_bounds (consumed a) \<and>
           limit (consumed a) = limit s \<and> last_refill (consumed a) \<le> clock (readings a)"
    proof (cases "tokens s < n")
      case False
      with 1(2) r have a: "a = \<lparr>refilled = seen, consumed = s\<lparr>tokens := tokens s - n\<rparr>,
                             sleeps = zs, readings = i\<rparr>"
        by simp
      show ?thesis
        using False inv n seen last by (simp add: a within_bounds_def)
    next
      case True
      show ?thesis
      proof (cases "sleep_time s tp")
        case (Inl err)
        with 1(2) True r show ?thesis by simp
      next
        case z: (Inr z)
        show ?thesis
        proof (cases "z = PInf")
          case inf: True
          with 1(2) True z show ?thesis by simp
        next
          case fin: False
          let ?tp = "float_sub (clock i) (Fin (last_refill s))"
          have tp: "float_nonneg ?tp"
            using last by (simp add: round_float_nonneg)
          show ?thesis
          proof (cases "refill s (clock i) ?tp")
            case (Inl err)
            with 1(2) True z fin r show ?thesis by (simp add: Let_def)
          next
            case (Inr s')
            with 1(2) True z fin have run:
              "wait s' n ?tp clock (i + 1) (seen @ [s']) (zs @ [z]) = Some r"
              by (simp add: Let_def)
            have s': "within_bounds s'"
              using refill_nonneg [OF Inr _ lim tp] refill_cases [OF Inr] inv
              by (simp add: within_bounds_def)
            have "last_refill s' \<le> clock (i + 1)"
              using refill_cases [OF Inr] mono by simp
            with 1(1) [OF run] r mono lim refill_cases [OF Inr] s' n seen
            show ?thesis by simp
          qed
        qed
      qed
    qed
  qed
qed

lemma acquire_within_bounds:
  assumes "RateLimiter_acquire s n clock i = Some (Inr a)"
    and "\<forall>j. clock j \<le> clock (Suc j)" "last_refill s \<le> clock i" "0 \<le> limit s"
    and "within_bounds s" "1 \<le> n"
  shows "(\<forall>x\<in>set (refilled a). within_bounds x) \<and> within_bounds (consumed a) \<and>
           limit (consumed a) = limit s \<and> last_refill (consumed a) \<le> clock (readings a)"
proof (cases "refill s (clock i) (float_sub (clock i) (Fin (last_refill s)))")
  case (Inl err)
  with assms(1) show ?thesis by (simp add: RateLimiter_acquire_def Let_def)
next
  case (Inr s')
  let ?tp = "float_sub (clock i) (Fin (last_refill s))"
  from Inr assms(1) have run:
    "wait_for_tokens s' n ?tp clock (i + 1) [s'] [] = Some (Inr a)"
    by (simp add: RateLimiter_acquire_def Let_def)
  have tp: "float_nonneg ?tp"
    using assms(3) by (simp add: round_float_nonneg)
  have s': "within_bounds s'"
    using refill_nonneg [OF Inr _ assms(4) tp] refill_cases [OF Inr] assms(5)
    by (simp add: within_bounds_def)
  have "last_refill s' \<le> clock (i + 1)"
    using refill_cases [OF Inr] assms(2) by simp
  with wait_within_bounds [OF run] assms(2,4,6) refill_cases [OF Inr] s'
  show ?thesis by simp
qed

lemma acquire_calls_within_bounds:
  assumes "\<forall>j. clock j \<le> clock (Suc j)"
  shows "acquire_calls s ns clock i = Some (calls, s', j) \<Longrightarrow> last_refill s \<le> clock i \<Longrightarrow>
    0 \<le> limit s \<Longrightarrow> within_bounds s \<Longrightarrow> \<forall>n\<in>set ns. 1 \<le> n \<Longrightarrow>
    \<forall>a\<in>set calls. \<forall>x\<in>set (refilled a). within_bounds x"
proof (induction ns arbitrary: s i calls)
  case Nil
  then show ?case by simp
next
  case (Cons n ns)
  from Cons.prems(1) obtain a rest where
    a: "RateLimiter_acquire s n clock i = Some (Inr a)"
    and rest: "acquire_calls (consumed a) ns clock (readings a) = Some (rest, s', j)"
    and calls: "calls = a # rest"
    by (auto split: option.splits sum.splits)
  from Cons.prems have n: "1 \<le> n" by simp
  note one = acquire_within_bounds [OF a assms Cons.prems(2,3,4) n]
  have "\<forall>a\<in>set rest. \<forall>x\<in>set (refilled a). within_bounds x"
    using Cons.IH [OF rest] one Cons.prems(3,5) by simp
  with one show ?case by (simp add: calls)
qed

lemma wait_consumed_within_bounds:
  assumes "wait_for_tokens s n tp clock i seen zs = Some r"
  shows "\<forall>a. r = Inr a \<longrightarrow> tokens s \<le> limit s \<longrightarrow> 1 \<le> n \<longrightarrow> within_bounds (consumed a)"
proof (rule wait_for_tokens.raw_induct
    [where P = "\<lambda>s n tp clock i seen zs r.
       \<forall>a. r = Inr a \<longrightarrow> tokens s \<le> limit s \<longrightarrow> 1 \<le> n \<longrightarrow> within_bounds (consumed a)",
     OF _ assms], goal_cases)
  case (1 wait s n tp clock i seen zs r)
  show ?case
  proof (intro allI impI)
    fix a
    assume r: "r = Inr a" and le: "tokens s \<le> limit s" and n: "1 \<le> n"
    show "within_bounds (consumed a)"
    proof (cases "tokens s < n")
      case False
      with 1(2) r have "consumed a = s\<lparr>tokens := tokens s - n\<rparr>" by auto
      with False le n show ?thesis by (simp add: within_bounds_def)
    next
      case True
      show ?thesis
      proof (cases "sleep_time s tp")
        case (Inl err)
        with 1(2) True r show ?thesis by simp
      next
        case z: (Inr z)
        show ?thesis
        proof (cases "z = PInf")
          case inf: True
          with 1(2) True z show ?thesis by simp
        next
          case fin: False
          let ?tp = "float_sub (clock i) (Fin (last_refill s))"
          show ?thesis
          proof (cases "refill s (clock i) ?tp")
            case (Inl err)
            with 1(2) True z fin r show ?thesis by (simp add: Let_def)
          next
            case (Inr s')
            with 1(2) True z fin have
              "wait s' n ?tp clock (i + 1) (seen @ [s']) (zs @ [z]) = Some r"
              by (simp add: Let_def)
            from 1(1) [OF this] r refill_cases [OF Inr] n show ?thesis by simp
          qed
        qed
      qed
    qed
  qed
qed

lemma acquire_consumed_within_bounds:
  assumes "RateLimiter_acquire s n clock i = Some (Inr a)" and "1 \<le> n"
  shows "within_bounds (consumed a)"
proof (cases "refill s (clock i) (float_sub (clock i) (Fin (last_refill s)))")
  case (Inl err)
  with assms(1) show ?thesis by (simp add: RateLimiter_acquire_def Let_def)
next
  case (Inr s')
  with assms(1) have
    "wait_for_tokens s' n (float_sub (clock i) (Fin (last_refill s))) clock (i + 1) [s'] []
       = Some (Inr a)"
    by (simp add: RateLimiter_acquire_def Let_def)
  from wait_consumed_within_bounds [OF this] refill_cases [OF Inr] assms(2)
  show ?thesis by simp
qed

lemma acquire_calls_consumed_within_bounds:
  "acquire_calls s ns clock i = Some (calls, s', j) \<Longrightarrow> \<forall>n\<in>set ns. 1 \<le> n \<Longrightarrow>
     \<forall>a\<in>set calls. within_bounds (consumed a)"
proof (induction ns arbitrary: s i calls)
  case Nil
  then show ?case by simp
next
  case (Cons n ns)
  from Cons.prems(1) obtain a rest where
    a: "RateLimiter_acquire s n clock i = Some (Inr a)"
    and rest: "acquire_calls (consumed a) ns clock (readings a) = Some (rest, s', j)"
    and calls: "calls = a # rest"
    by (auto split: option.splits sum.splits)
  from Cons.prems have n: "1 \<le> n" by simp
  from Cons.IH [OF rest] Cons.prems(2) acquire_consumed_within_bounds [OF a n]
  show ?case by (simp add: calls)
qed

text \<open>
  C4, as the code has it.  A limiter is constructed at the reading \<open>clock 0\<close>, and calls of
  \<^verbatim>\<open>acquire\<close> that each ask for between 1 and \<open>limit\<close> tokens take the readings from \<open>clock 1\<close>
  on and all return.  After the consume step of every call \<open>0 \<le> tokens \<le> limit\<close> holds,
  whatever the clock reads.  After every refill step it holds when the limit is positive
  and the readings of the clock never decrease.
\<close>

theorem token_bucket_bound:
  assumes "\<forall>n\<in>set ns. 1 \<le> n \<and> n \<le> l"
    and "acquire_calls (RateLimiter_init l w (clock 0)) ns clock 1 = Some (calls, s', j)"
  shows "(\<forall>a\<in>set calls.
            0 \<le> tokens (consumed a) \<and> tokens (consumed a) \<le> limit (consumed a)) \<and>
         (0 < l \<and> (\<forall>j. clock j \<le> clock (Suc j)) \<longrightarrow>
            (\<forall>a\<in>set calls. \<forall>s\<in>set (refilled a). 0 \<le> tokens s \<and> tokens s \<le> limit s))"
proof (intro conjI impI)
  from assms(1) have n: "\<forall>n\<in>set ns. 1 \<le> n" by simp
  from acquire_calls_consumed_within_bounds [OF assms(2) n]
  show "\<forall>a\<in>set calls.
          0 \<le> tokens (consumed a) \<and> tokens (consumed a) \<le> limit (consumed a)"
    by (simp add: within_bounds_def)
  assume a: "0 < l \<and> (\<forall>j. clock j \<le> clock (Suc j))"
  then have mono: "\<forall>j. clock j \<le> clock (Suc j)" by simp
  have "\<forall>a\<in>set calls. \<forall>x\<in>set (refilled a). within_bounds x"
    using acquire_calls_within_bounds [OF mono assms(2)] a n
    by (simp add: RateLimiter_init_def within_bounds_def)
  then show "\<forall>a\<in>set calls. \<forall>s\<in>set (refilled a). 0 \<le> tokens s \<and> tokens s \<le> limit s"
    by (simp add: within_bounds_def)
qed

lemma half_minute_run:
  "acquire_calls (RateLimiter_init 2 60 (half_minute_clock 0)) [2, 1, 2] half_minute_clock 1 =
     Some (half_minute_calls,
           \<lparr>limit = 2, window_seconds = 60, tokens = 0, last_refill = 120\<rparr>, 5)"
  by (simp add: RateLimiter_acquire_def RateLimiter_init_def half_minute_clock_def refill_def
      wait_for_tokens.simps half_minute_calls_def float_eval)

text \<open>
  Against the claim as stated, which says nothing of the clock: \<^verbatim>\<open>time.time()\<close> is the
  wall clock and may be set back.  A limiter of limit 60 and window 60 is constructed at
  time 100; \<^verbatim>\<open>acquire(60)\<close> at time 100 empties it; \<^verbatim>\<open>acquire(1)\<close> then reads time 70, so that
  \<^verbatim>\<open>time_passed\<close> is \<open>-30\<close> and the refill step leaves \<open>tokens = -30\<close>; the waiting loop reads
  time 200, refills to 60 and the call completes with 59 tokens.
\<close>

theorem token_bucket_negative_after_refill:
  "acquire_calls (RateLimiter_init 60 60 (stepping_back_clock 0)) [60, 1] stepping_back_clock 1 =
     Some ([\<lparr>refilled = [\<lparr>limit = 60, window_seconds = 60, tokens = 60, last_refill = 100\<rparr>],
              consumed = \<lparr>limit = 60, window_seconds = 60, tokens = 0, last_refill = 100\<rparr>,
              sleeps = [], readings = 2\<rparr>,
            \<lparr>refilled = [\<lparr>limit = 60, window_seconds = 60, tokens = - 30, last_refill = 70\<rparr>,
                          \<lparr>limit = 60, window_seconds = 60, tokens = 60, last_refill = 200\<rparr>],
              consumed = \<lparr>limit = 60, window_seconds = 60, tokens = 59, last_refill = 200\<rparr>,
              sleeps = [Fin 91], readings = 4\<rparr>],
           \<lparr>limit = 60, window_seconds = 60, tokens = 59, last_refill = 200\<rparr>, 4)"
  by (simp add: RateLimiter_acquire_def RateLimiter_init_def stepping_back_clock_def refill_def
      wait_for_tokens.simps float_eval)

text \<open>
  The arithmetic of a refill step can end a call.  A limit of \<open>2^1024\<close> is beyond every
  float: the first refill inside the window multiplies by it and raises \<^verbatim>\<open>OverflowError\<close>.
\<close>

lemma acquire_beyond_double:
  "RateLimiter_acquire (RateLimiter_init (2 ^ 1024) 60 0) (2 ^ 1024 + 1) half_minute_clock 1 =
     Some (Inl OverflowError)"
  by (simp add: RateLimiter_acquire_def RateLimiter_init_def half_minute_clock_def refill_def
      float_eval)

text \<open>
  The arithmetic rounds as the machine does.  Seven seconds into a window of ten, a limiter
  of limit 90 adds \<^verbatim>\<open>int((7.0 / 10) * 90)\<close> tokens, which is 62 and not 63: the quotient is the
  double below \<open>7/10\<close>, and the product rounds to the double below 63.
\<close>

lemma floor_7_10: "\<lfloor>31525197391593472 / 5 :: rat\<rfloor> = 6305039478318694"
  by (simp add: floor_unique)

lemma round_float_7_10: "round_float (7 / 10) = Fin (3152519739159347 / 4503599627370496)"
  by (simp add: float_eval floor_7_10)

lemma floor_63: "\<lfloor>141863388262170615 / 2251799813685248 :: rat\<rfloor> = 62"
  by (simp add: floor_unique)

lemma exponent_63: "exponent (141863388262170615 / 2251799813685248) = 5"
  by (simp add: exponent_def floor_63 bit_length.simps)

lemma floor_63_scaled: "\<lfloor>141863388262170615 / 16 :: rat\<rfloor> = 8866461766385663"
  by (simp add: floor_unique)

lemma round_float_63:
  "round_float (141863388262170615 / 2251799813685248) =
     Fin (8866461766385663 / 140737488355328)"
  by (simp add: round_float_def exponent_63 two_to_def round_half_even_def Let_def
      floor_63_scaled)

lemma floor_62: "\<lfloor>8866461766385663 / 140737488355328 :: rat\<rfloor> = 62"
  by (simp add: floor_unique)

lemma double_of_int_10: "double_of_int 10 = Inr 10"
  by (simp add: float_eval)

lemma double_of_int_90: "double_of_int 90 = Inr 90"
  by (simp add: float_eval)

lemma refill_rounds:
  "refill \<lparr>limit = 90, window_seconds = 10, tokens = 0, last_refill = 0\<rparr> 7 (Fin 7) =
     Inr \<lparr>limit = 90, window_seconds = 10, tokens = 62, last_refill = 7\<rparr>"
  by (simp add: refill_def float_div_int_def float_mul_int_def double_of_int_10
      double_of_int_90 round_float_7_10 round_float_63 floor_62)

theorem token_bucket_bound_witness:
  "list_all (\<lambda>n. (1::int) \<le> n \<and> n \<le> 2) [2, 1, 2] \<and>
   acquire_calls (RateLimiter_init 2 60 (half_minute_clock 0)) [2, 1, 2] half_minute_clock 1 =
     Some (half_minute_calls,
           \<lparr>limit = 2, window_seconds = 60, tokens = 0, last_refill = 120\<rparr>, 5) \<and>
   list_all (\<lambda>a. 0 \<le> tokens (consumed a) \<and> tokens (consumed a) \<le> limit (consumed a))
     half_minute_calls \<and>
   (0::int) < 2 \<and> (\<forall>j. half_minute_clock j \<le> half_minute_clock (Suc j)) \<and>
   list_all (\<lambda>a. list_all (\<lambda>s. 0 \<le> tokens s \<and> tokens s \<le> limit s) (refilled a))
     half_minute_calls"
proof -
  have n: "\<forall>n\<in>set [2, 1, 2]. (1::int) \<le> n \<and> n \<le> 2" by simp
  have l: "(0::int) < 2 \<and> (\<forall>j. half_minute_clock j \<le> half_minute_clock (Suc j))"
    by (simp add: half_minute_clock_def)
  note run = half_minute_run
  show ?thesis
    using n l run token_bucket_bound [OF n run] by (simp add: list_all_iff)
qed

section \<open>Properties of MemoryCache\<close>

lemma min_by_value_in: "min_by_value b ps \<in> set (b # ps)"
  by (induction ps arbitrary: b) auto

lemma min_by_value_le_best: "snd (min_by_value b ps) \<le> snd b"
proof (induction ps arbitrary: b)
  case Nil
  show ?case by simp
next
  case (Cons p ps)
  show ?case
    using Cons [of "if snd p < snd b then p else b"] by (auto split: if_splits)
qed

lemma min_by_value_le: "p \<in> set (b # ps) \<Longrightarrow> snd (min_by_value b ps) \<le> snd p"
proof (induction ps arbitrary: b)
  case Nil
  then show ?case by simp
next
  case (Cons q ps)
  let ?b = "if snd q < snd b then q else b"
  from Cons.prems consider "p = b" | "p = q" | "p \<in> set ps" by auto
  then show ?case
  proof cases
    case 1
    have "snd (min_by_value ?b ps) \<le> snd ?b" by (rule min_by_value_le_best)
    with 1 show ?thesis by (auto split: if_splits)
  next
    case 2
    have "snd (min_by_value ?b ps) \<le> snd ?b" by (rule min_by_value_le_best)
    with 2 show ?thesis by (auto split: if_splits)
  next
    case 3
    then have "p \<in> set (?b # ps)" by simp
    from Cons.IH [OF this] show ?thesis by simp
  qed
qed

lemma dict_set_keys: "fst ` set (dict_set k v d) = insert k (fst ` set d)"
  by (induction d) auto

lemma dict_set_distinct: "distinct (map fst d) \<Longrightarrow> distinct (map fst (dict_set k v d))"
proof (induction d)
  case Nil
  show ?case by simp
next
  case (Cons p d)
  then show ?case using dict_set_keys [of k v d] by (auto simp: image_iff)
qed

lemma dict_set_length:
  "length (dict_set k v d) = (if k \<in> fst ` set d then length d else Suc (length d))"
  by (induction d) auto

lemma keys_filter: "fst ` set (filter (\<lambda>p. fst p \<noteq> k) d) = fst ` set d - {k}"
  by auto

lemma distinct_filter_keys:
  "distinct (map fst d) \<Longrightarrow> distinct (map fst (filter (\<lambda>p. fst p \<noteq> k) d))"
  by (simp add: distinct_map_filter)

lemma length_filter_key:
  "distinct (map fst d) \<Longrightarrow> k \<in> fst ` set d \<Longrightarrow>
     Suc (length (filter (\<lambda>p. fst p \<noteq> k) d)) = length d"
proof (induction d)
  case Nil
  then show ?case by simp
next
  case (Cons p d)
  show ?case
  proof (cases "fst p = k")
    case True
    with Cons.prems(1) have "\<forall>q\<in>set d. fst q \<noteq> k" by (auto simp: image_iff)
    then have "filter (\<lambda>p. fst p \<noteq> k) d = d" by (simp add: filter_id_conv)
    with True show ?thesis by simp
  next
    case False
    with Cons show ?thesis by auto
  qed
qed

lemma evict_oldest_consistent:
  assumes "consistent s" and "access_times s = p # ps"
  shows "MemoryCache_evict_oldest s =
           Inr (s\<lparr>cache := filter (\<lambda>q. fst q \<noteq> fst (min_by_value p ps)) (cache s),
                  access_times :=
                    filter (\<lambda>q. fst q \<noteq> fst (min_by_value p ps)) (access_times s)\<rparr>)"
proof -
  have "min_by_value p ps \<in> set (access_times s)"
    using min_by_value_in [of p ps] assms(2) by simp
  then have "fst (min_by_value p ps) \<in> fst ` set (access_times s)" by (rule imageI)
  moreover from assms(1) have "fst ` set (cache s) = fst ` set (access_times s)"
    by (simp add: consistent_def)
  ultimately show ?thesis
    using assms(2) by (simp add: MemoryCache_evict_oldest_def dict_del_def Let_def)
qed

lemma set_when_full:
  assumes "consistent s" and "1 \<le> max_size s" and "int (length (cache s)) = max_size s"
  shows "\<exists>k t. (k, t) \<in> set (access_times s) \<and> (\<forall>q\<in>set (access_times s). t \<le> snd q) \<and>
           k \<in> fst ` set (cache s) \<and>
           Suc (length (filter (\<lambda>q. fst q \<noteq> k) (cache s))) = length (cache s) \<and>
           MemoryCache_set s endpoint params v ttl t1 t2 =
             Inr (s\<lparr>cache :=
                      dict_set (generate_key endpoint params)
                        \<lparr>data = v,
                           expires_at =
                             t1 + (case ttl of None \<Rightarrow> default_ttl s
                                   | Some t \<Rightarrow> if t = 0 then default_ttl s else t)\<rparr>
                        (filter (\<lambda>q. fst q \<noteq> k) (cache s)),
                    access_times :=
                      dict_set (generate_key endpoint params) t2
                        (filter (\<lambda>q. fst q \<noteq> k) (access_times s))\<rparr>)"
proof -
  from assms(2,3) have "cache s \<noteq> []" by auto
  then have "fst ` set (cache s) \<noteq> {}" by simp
  with assms(1) have "access_times s \<noteq> []" by (auto simp: consistent_def)
  then obtain p ps where a: "access_times s = p # ps" by (cases "access_times s") auto
  let ?m = "min_by_value p ps"
  have in_a: "?m \<in> set (access_times s)" using min_by_value_in [of p ps] a by simp
  have le: "\<forall>q\<in>set (access_times s). snd ?m \<le> snd q"
    using min_by_value_le [of _ p ps] a by simp
  have in_c: "fst ?m \<in> fst ` set (cache s)"
    using in_a assms(1) by (auto simp: consistent_def)
  have len: "Suc (length (filter (\<lambda>q. fst q \<noteq> fst ?m) (cache s))) = length (cache s)"
    using length_filter_key [OF _ in_c] assms(1) by (simp add: consistent_def)
  have "MemoryCache_set s endpoint params v ttl t1 t2 =
          Inr (s\<lparr>cache :=
                   dict_set (generate_key endpoint params)
                     \<lparr>data = v,
                        expires_at =
                          t1 + (case ttl of None \<Rightarrow> default_ttl s
                                | Some t \<Rightarrow> if t = 0 then default_ttl s else t)\<rparr>
                     (filter (\<lambda>q. fst q \<noteq> fst ?m) (cache s)),
                 access_times :=
                   dict_set (generate_key endpoint params) t2
                     (filter (\<lambda>q. fst q \<noteq> fst ?m) (access_times s))\<rparr>)"
    using assms(3) evict_oldest_consistent [OF assms(1) a]
    by (simp add: MemoryCache_set_def Let_def)
  with in_a le in_c len show ?thesis
    by (intro exI [of _ "fst ?m"] exI [of _ "snd ?m"]) simp
qed

lemma set_new_key:
  assumes "consistent s" and "1 \<le> max_size s" and "int (length (cache s)) \<le> max_size s"
    and "generate_key endpoint params \<notin> fst ` set (cache s)"
  shows "\<exists>s'. MemoryCache_set s endpoint params v ttl t1 t2 = Inr s' \<and> consistent s' \<and>
           max_size s' = max_size s \<and>
           fst ` set (cache s') \<subseteq> insert (generate_key endpoint params) (fst ` set (cache s)) \<and>
           length (cache s') = min (Suc (length (cache s))) (nat (max_size s))"
proof (cases "int (length (cache s)) = max_size s")
  case True
  from set_when_full [OF assms(1,2) True, of endpoint params v ttl t1 t2]
  obtain k t where k: "k \<in> fst ` set (cache s)"
    and len: "Suc (length (filter (\<lambda>q. fst q \<noteq> k) (cache s))) = length (cache s)"
    and eq: "MemoryCache_set s endpoint params v ttl t1 t2 =
             Inr (s\<lparr>cache :=
                      dict_set (generate_key endpoint params)
                        \<lparr>data = v,
                           expires_at =
                             t1 + (case ttl of None \<Rightarrow> default_ttl s
                                   | Some t \<Rightarrow> if t = 0 then default_ttl s else t)\<rparr>
                        (filter (\<lambda>q. fst q \<noteq> k) (cache s)),
                    access_times :=
                      dict_set (generate_key endpoint params) t2
                        (filter (\<lambda>q. fst q \<noteq> k) (access_times s))\<rparr>)"
    by blast
  have "generate_key endpoint params \<notin> fst ` set (filter (\<lambda>q. fst q \<noteq> k) (cache s))"
    using assms(4) by auto
  then have "length (dict_set (generate_key endpoint params)
                \<lparr>data = v,
                   expires_at =
                     t1 + (case ttl of None \<Rightarrow> default_ttl s
                           | Some t \<Rightarrow> if t = 0 then default_ttl s else t)\<rparr>
                (filter (\<lambda>q. fst q \<noteq> k) (cache s))) = length (cache s)"
    using len by (simp add: dict_set_length)
  moreover have "consistent (s\<lparr>cache :=
                      dict_set (generate_key endpoint params)
                        \<lparr>data = v,
                           expires_at =
                             t1 + (case ttl of None \<Rightarrow> default_ttl s
                                   | Some t \<Rightarrow> if t = 0 then default_ttl s else t)\<rparr>
                        (filter (\<lambda>q. fst q \<noteq> k) (cache s)),
                    access_times :=
                      dict_set (generate_key endpoint params) t2
                        (filter (\<lambda>q. fst q \<noteq> k) (access_times s))\<rparr>)"
    using assms(1)
    by (simp add: consistent_def dict_set_keys dict_set_distinct distinct_filter_keys keys_filter
        del: distinct_map set_filter)
  ultimately show ?thesis
    using True assms(2) by (auto simp: eq dict_set_keys)
next
  case False
  with assms(3) have lt: "int (length (cache s)) < max_size s" by simp
  then have eq: "MemoryCache_set s endpoint params v ttl t1 t2 =
             Inr (s\<lparr>cache :=
                      dict_set (generate_key endpoint params)
                        \<lparr>data = v,
                           expires_at =
                             t1 + (case ttl of None \<Rightarrow> default_ttl s
                                   | Some t \<Rightarrow> if t = 0 then default_ttl s else t)\<rparr>
                        (cache s),
                    access_times := dict_set (generate_key endpoint params) t2 (access_times s)\<rparr>)"
    by (simp add: MemoryCache_set_def Let_def)
  have "consistent (s\<lparr>cache :=
                      dict_set (generate_key endpoint params)
                        \<lparr>data = v,
                           expires_at =
                             t1 + (case ttl of None \<Rightarrow> default_ttl s
                                   | Some t \<Rightarrow> if t = 0 then default_ttl s else t)\<rparr>
                        (cache s),
                    access_times := dict_set (generate_key endpoint params) t2 (access_times s)\<rparr>)"
    using assms(1)
    by (simp add: consistent_def dict_set_keys dict_set_distinct del: distinct_map)
  then show ?thesis
    using lt assms(4) by (auto simp: eq dict_set_keys dict_set_length)
qed

text \<open>
  The consistency of the two dictionaries holds of a new cache and is kept by every
  operation, so it holds of every cache the operations can reach.
\<close>

lemma init_consistent: "consistent (MemoryCache_init ttl n)"
  by (simp add: consistent_def MemoryCache_init_def)

lemma clear_consistent: "consistent (MemoryCache_clear s)"
  by (simp add: consistent_def MemoryCache_clear_def)

lemma evict_oldest_keeps_consistent:
  assumes "consistent s"
  shows "\<exists>s'. MemoryCache_evict_oldest s = Inr s' \<and> consistent s'"
proof (cases "access_times s")
  case Nil
  with assms show ?thesis by (simp add: MemoryCache_evict_oldest_def)
next
  case (Cons p ps)
  have "consistent (s\<lparr>cache := filter (\<lambda>q. fst q \<noteq> fst (min_by_value p ps)) (cache s),
                  access_times :=
                    filter (\<lambda>q. fst q \<noteq> fst (min_by_value p ps)) (access_times s)\<rparr>)"
    using assms
    by (simp add: consistent_def distinct_filter_keys keys_filter del: distinct_map set_filter)
  with evict_oldest_consistent [OF assms Cons] show ?thesis by simp
qed

lemma set_keeps_consistent:
  assumes "consistent s"
  shows "\<exists>s'. MemoryCache_set s endpoint params v ttl t1 t2 = Inr s' \<and> consistent s'"
proof -
  obtain s1 where s1:
    "(if int (length (cache s)) \<ge> max_size s then MemoryCache_evict_oldest s else Inr s) = Inr s1"
    and c1: "consistent s1"
    using evict_oldest_keeps_consistent [OF assms] assms by (cases "int (length (cache s)) \<ge> max_size s") auto
  have "consistent (s1\<lparr>cache := dict_set (generate_key endpoint params) e (cache s1),
                       access_times := dict_set (generate_key endpoint params) t2 (access_times s1)\<rparr>)"
    for e
    using c1 by (simp add: consistent_def dict_set_keys dict_set_distinct del: distinct_map)
  with s1 show ?thesis by (simp add: MemoryCache_set_def Let_def)
qed

lemma get_keeps_consistent:
  assumes "consistent s"
  shows "consistent (snd (MemoryCache_get s endpoint params t1 t2))"
proof (cases "map_of (cache s) (generate_key endpoint params)")
  case None
  with assms show ?thesis by (simp add: MemoryCache_get_def)
next
  case (Some entry)
  then have "generate_key endpoint params \<in> fst ` set (cache s)"
    by (meson domI dom_map_of_conv_image_fst [THEN equalityD1, THEN subsetD])
  with assms have in_a: "generate_key endpoint params \<in> fst ` set (access_times s)"
    by (simp add: consistent_def)
  show ?thesis
  proof (cases "CacheEntry_is_expired entry t1")
    case True
    have "consistent (s\<lparr>cache := filter (\<lambda>p. fst p \<noteq> generate_key endpoint params) (cache s),
                        access_times :=
                          filter (\<lambda>p. fst p \<noteq> generate_key endpoint params) (access_times s)\<rparr>)"
      using assms
      by (simp add: consistent_def distinct_filter_keys keys_filter del: distinct_map set_filter)
    with Some True in_a show ?thesis by (simp add: MemoryCache_get_def Let_def)
  next
    case False
    have "consistent (s\<lparr>access_times := dict_set (generate_key endpoint params) t2 (access_times s)\<rparr>)"
      using assms in_a
      by (auto simp: consistent_def dict_set_keys dict_set_distinct simp del: distinct_map)
    with Some False show ?thesis by (simp add: MemoryCache_get_def Let_def)
  qed
qed

lemma set_calls_size:
  assumes "1 \<le> n"
  shows "max_size s = n \<Longrightarrow> consistent s \<Longrightarrow> int (length (cache s)) \<le> n \<Longrightarrow>
    distinct (map call_key calls) \<Longrightarrow> \<forall>c\<in>set calls. call_key c \<notin> fst ` set (cache s) \<Longrightarrow>
    \<exists>s'. set_calls s calls = Inr s' \<and> consistent s' \<and> max_size s' = n \<and>
         length (cache s') = min (length (cache s) + length calls) (nat n)"
proof (induction calls arbitrary: s)
  case Nil
  then show ?case by simp
next
  case (Cons c calls)
  obtain endpoint params v t where c: "c = (endpoint, params, v, t)" by (cases c) auto
  then have key: "call_key c = generate_key endpoint params" by (simp add: call_key_def)
  from Cons.prems have new: "generate_key endpoint params \<notin> fst ` set (cache s)"
    by (simp add: key)
  from set_new_key [OF Cons.prems(2) _ _ new, of v None t t] assms Cons.prems(1,3)
  obtain s1 where s1: "MemoryCache_set s endpoint params v None t t = Inr s1"
    and cons: "consistent s1" and size: "max_size s1 = n"
    and keys: "fst ` set (cache s1) \<subseteq> insert (generate_key endpoint params) (fst ` set (cache s))"
    and len: "length (cache s1) = min (Suc (length (cache s))) (nat n)"
    by auto
  have le: "int (length (cache s1)) \<le> n" using len assms by simp
  have dist: "distinct (map call_key calls)" using Cons.prems(4) by simp
  have fresh: "\<forall>c'\<in>set calls. call_key c' \<notin> fst ` set (cache s1)"
  proof
    fix c' assume c': "c' \<in> set calls"
    with Cons.prems(4) have "call_key c' \<noteq> call_key c" by (auto simp: image_iff)
    moreover from c' Cons.prems(5) have "call_key c' \<notin> fst ` set (cache s)" by simp
    ultimately show "call_key c' \<notin> fst ` set (cache s1)" using keys key by auto
  qed
  from Cons.IH [OF size cons le dist fresh] obtain s' where
    s': "set_calls s1 calls = Inr s'" "consistent s'" "max_size s' = n"
      "length (cache s') = min (length (cache s1) + length calls) (nat n)"
    by blast
  have "length (cache s') = min (length (cache s) + length (c # calls)) (nat n)"
    using s'(4) len by (simp add: min_def)
  with s' s1 show ?case by (simp add: c)
qed

text \<open>
  C5, as the code has it.  The first part: when \<^verbatim>\<open>set\<close> is called on a cache that holds
  \<open>max_size\<close> entries, with \<open>max_size \<ge> 1\<close>, there is a key \<open>k\<close> whose access time \<open>t\<close> is
  minimal among all access times, the store without \<open>k\<close> has exactly one entry less, and the
  result of the call is that store with the new entry inserted.  The second part: starting
  from an empty cache with \<open>max_size = n \<ge> 1\<close>, after \<^verbatim>\<open>set\<close> calls with pairwise distinct keys,
  more than \<open>n\<close> of them, the size is exactly \<open>n\<close>.  The claim is stated for every cache;
  the bound \<open>max_size \<ge> 1\<close> is what the code needs.
\<close>

theorem eviction_bound:
  "(1 \<le> max_size self \<and> consistent self \<and> int (length (cache self)) = max_size self \<longrightarrow>
      (\<exists>k t. (k, t) \<in> set (access_times self) \<and> (\<forall>q\<in>set (access_times self). t \<le> snd q) \<and>
           k \<in> fst ` set (cache self) \<and>
           Suc (length (filter (\<lambda>q. fst q \<noteq> k) (cache self))) = length (cache self) \<and>
           MemoryCache_set self endpoint params v ttl t1 t2 =
             Inr (self\<lparr>cache :=
                      dict_set (generate_key endpoint params)
                        \<lparr>data = v,
                           expires_at =
                             t1 + (case ttl of None \<Rightarrow> default_ttl self
                                   | Some t \<Rightarrow> if t = 0 then default_ttl self else t)\<rparr>
                        (filter (\<lambda>q. fst q \<noteq> k) (cache self)),
                    access_times :=
                      dict_set (generate_key endpoint params) t2
                        (filter (\<lambda>q. fst q \<noteq> k) (access_times self))\<rparr>))) \<and>
   (1 \<le> n \<and> distinct (map call_key calls) \<and> n < int (length calls) \<longrightarrow>
      (\<exists>c. set_calls (MemoryCache_init d n) calls = Inr c \<and> MemoryCache_size c = nat n))"
proof (intro conjI impI)
  assume "1 \<le> max_size self \<and> consistent self \<and> int (length (cache self)) = max_size self"
  then show "\<exists>k t. (k, t) \<in> set (access_times self) \<and> (\<forall>q\<in>set (access_times self). t \<le> snd q) \<and>
           k \<in> fst ` set (cache self) \<and>
           Suc (length (filter (\<lambda>q. fst q \<noteq> k) (cache self))) = length (cache self) \<and>
           MemoryCache_set self endpoint params v ttl t1 t2 =
             Inr (self\<lparr>cache :=
                      dict_set (generate_key endpoint params)
                        \<lparr>data = v,
                           expires_at =
                             t1 + (case ttl of None \<Rightarrow> default_ttl self
                                   | Some t \<Rightarrow> if t = 0 then default_ttl self else t)\<rparr>
                        (filter (\<lambda>q. fst q \<noteq> k) (cache self)),
                    access_times :=
                      dict_set (generate_key endpoint params) t2
                        (filter (\<lambda>q. fst q \<noteq> k) (access_times self))\<rparr>)"
    using set_when_full [of self endpoint params v ttl t1 t2] by blast
next
  assume a: "1 \<le> n \<and> distinct (map call_key calls) \<and> n < int (length calls)"
  then have "1 \<le> n" by simp
  from set_calls_size [OF this, of "MemoryCache_init d n" calls] a
  obtain c where "set_calls (MemoryCache_init d n) calls = Inr c"
    "length (cache c) = min (length (cache (MemoryCache_init d n :: 'b MemoryCache)) + length calls) (nat n)"
    by (auto simp: MemoryCache_init_def consistent_def)
  with a show "\<exists>c. set_calls (MemoryCache_init d n) calls = Inr c \<and> MemoryCache_size c = nat n"
    by (auto simp: MemoryCache_size_def MemoryCache_init_def)
qed

text \<open>
  Against the claim as stated: a cache with \<open>max_size = 0\<close> holds \<open>max_size\<close> entries
  when it is empty.  \<^verbatim>\<open>_evict_oldest\<close> then returns at once (its guard
  \<^verbatim>\<open>if not self._access_times: return\<close>), no entry is removed, the new entry is inserted,
  and after this one call, more than \<open>max_size\<close>, the size is 1 and not 0.
\<close>

theorem eviction_without_capacity:
  "MemoryCache_set (MemoryCache_init 300 0) ''a'' None (1::nat) None 0 0 =
     Inr \<lparr>default_ttl = 300, max_size = 0,
           cache = [(generate_key ''a'' None, \<lparr>data = 1, expires_at = 300\<rparr>)],
           access_times = [(generate_key ''a'' None, 0)]\<rparr>"
  by (simp add: MemoryCache_set_def MemoryCache_init_def MemoryCache_evict_oldest_def Let_def)

text \<open>
  C6, as the code has it.  \<^verbatim>\<open>is_expired\<close> compares with \<^verbatim>\<open>>\<close>: an entry is returned while
  \<open>now \<le> expires_at\<close>, the expiry instant included, and a \<^verbatim>\<open>get\<close> strictly after it returns
  \<^verbatim>\<open>None\<close> and leaves the key in neither dictionary.
\<close>

theorem get_expiry:
  assumes "map_of (cache self) (generate_key endpoint params) = Some entry"
  shows "(t1 \<le> expires_at entry \<longrightarrow>
            fst (MemoryCache_get self endpoint params t1 t2) = Some (data entry)) \<and>
         (expires_at entry < t1 \<longrightarrow>
            fst (MemoryCache_get self endpoint params t1 t2) = None \<and>
            generate_key endpoint params
              \<notin> fst ` set (cache (snd (MemoryCache_get self endpoint params t1 t2))) \<and>
            generate_key endpoint params
              \<notin> fst ` set (access_times (snd (MemoryCache_get self endpoint params t1 t2))))"
  using assms by (auto simp: MemoryCache_get_def CacheEntry_is_expired_def Let_def)

text \<open>
  Against the claim as stated, which has the entry absent from \<open>now \<ge> expires_at\<close>
  on: a \<^verbatim>\<open>get\<close> at exactly the expiry instant 10 returns the stored value 7.
\<close>

theorem get_at_expiry_instant:
  "fst (MemoryCache_get
         \<lparr>default_ttl = 300, max_size = 10,
            cache = [(generate_key ''a'' None, \<lparr>data = 7::nat, expires_at = 10\<rparr>)],
            access_times = [(generate_key ''a'' None, 0)]\<rparr> ''a'' None 10 10) = Some 7"
  by (simp add: MemoryCache_get_def CacheEntry_is_expired_def Let_def)

lemma generate_key_a: "generate_key ''a'' None = ''06e20627a8b0baccc9303c0be7039ab3''"
  by code_simp

lemma generate_key_b: "generate_key ''b'' None = ''23bd8bfc908ae978208d091f1227a411''"
  by code_simp

lemma generate_key_c: "generate_key ''c'' None = ''92c87e5c4fa62a7ef518d0e0cea84ce2''"
  by code_simp

theorem eviction_bound_witness:
  "(1 \<le> max_size full_cache \<and> consistent full_cache \<and>
      int (length (cache full_cache)) = max_size full_cache) \<and>
   (\<exists>k t. (k, t) \<in> set (access_times full_cache) \<and>
        (\<forall>q\<in>set (access_times full_cache). t \<le> snd q) \<and>
        k \<in> fst ` set (cache full_cache) \<and>
        Suc (length (filter (\<lambda>q. fst q \<noteq> k) (cache full_cache))) = length (cache full_cache) \<and>
        MemoryCache_set full_cache ''c'' None 3 None 2 2 =
          Inr (full_cache\<lparr>cache :=
                   dict_set (generate_key ''c'' None)
                     \<lparr>data = 3,
                        expires_at =
                          2 + (case None of None \<Rightarrow> default_ttl full_cache
                                | Some t \<Rightarrow> if t = 0 then default_ttl full_cache else t)\<rparr>
                     (filter (\<lambda>q. fst q \<noteq> k) (cache full_cache)),
                 access_times :=
                   dict_set (generate_key ''c'' None) 2
                     (filter (\<lambda>q. fst q \<noteq> k) (access_times full_cache))\<rparr>)) \<and>
   ((1::int) \<le> 2 \<and> distinct (map call_key three_calls) \<and> 2 < int (length three_calls)) \<and>
   (\<exists>c. set_calls (MemoryCache_init 300 2) three_calls = Inr c \<and> MemoryCache_size c = nat 2)"
proof -
  have h1: "1 \<le> max_size full_cache \<and> consistent full_cache \<and>
      int (length (cache full_cache)) = max_size full_cache"
    by (simp add: full_cache_def consistent_def generate_key_a generate_key_b)
  have h2: "(1::int) \<le> 2 \<and> distinct (map call_key three_calls) \<and> 2 < int (length three_calls)"
    by (simp add: three_calls_def call_key_def generate_key_a generate_key_b generate_key_c)
  show ?thesis
    using h1 h2 eviction_bound [of full_cache "''c''" None 3 None 2 2 2 three_calls 300]
    by blast
qed

theorem get_expiry_witness:
  "map_of (cache full_cache) (generate_key ''a'' None) = Some \<lparr>data = 1, expires_at = 300\<rparr> \<and>
   fst (MemoryCache_get full_cache ''a'' None 300 300) = Some 1 \<and>
   fst (MemoryCache_get full_cache ''a'' None 301 301) = None \<and>
   generate_key ''a'' None
     \<notin> fst ` set (cache (snd (MemoryCache_get full_cache ''a'' None 301 301))) \<and>
   generate_key ''a'' None
     \<notin> fst ` set (access_times (snd (MemoryCache_get full_cache ''a'' None 301 301)))"
proof -
  have h: "map_of (cache full_cache) (generate_key ''a'' None)
             = Some \<lparr>data = 1, expires_at = 300\<rparr>"
    by (simp add: full_cache_def)
  show ?thesis
    using h get_expiry [OF h, of 300 300] get_expiry [OF h, of 301 301] by simp
qed

section \<open>Properties of the cache key\<close>

lemma distinct_map_sort_key:
  "distinct (map f (sort_key f xs)) = distinct (map f xs)"
  by (induction xs) (simp_all add: distinct_insort_key)

lemma sort_key_fst_eq:
  assumes "distinct (map fst ps)" and "distinct (map fst qs)" and "map_of ps = map_of qs"
  shows "sort_key fst ps = sort_key fst qs"
proof (rule map_sorted_distinct_set_unique [where f = fst])
  have eq: "set ps = set qs" using assms by (simp add: map_of_inject_set)
  from assms(1) have "inj_on fst (set ps)" by (simp add: distinct_map)
  with eq show "inj_on fst (set (sort_key fst ps) \<union> set (sort_key fst qs))" by simp
  show "sorted (map fst (sort_key fst ps))" "sorted (map fst (sort_key fst qs))"
    by (rule sorted_sort_key)+
  show "distinct (map fst (sort_key fst ps))" "distinct (map fst (sort_key fst qs))"
    using assms(1,2) by (simp_all add: distinct_map_sort_key)
  from eq show "set (sort_key fst ps) = set (sort_key fst qs)" by simp
qed

lemma length_md5_hexdigest: "length (md5_hexdigest s) = 32"
proof -
  obtain a b c d where
    "md5_blocks (0x67452301, 0xefcdab89, 0x98badcfe, 0x10325476)
       (md5_pad (map (\<lambda>c. of_nat (of_char c)) s)) = (a, b, c, d)"
    by (cases "md5_blocks (0x67452301, 0xefcdab89, 0x98badcfe, 0x10325476)
       (md5_pad (map (\<lambda>c. of_nat (of_char c)) s))") auto
  then show ?thesis
    by (simp add: md5_hexdigest_def le_bytes_def hex_byte_def)
qed

lemma dumps_second_item_cong:
  assumes "dumps v = dumps w"
  shows "dumps (JDict [a, (k, v)]) = dumps (JDict [a, (k, w)])"
  using assms by (cases a) simp

text \<open>
  C9.  Two parameter dictionaries that are equal as mappings from keys to values, whatever
  the order in which their items were inserted, give the same cache key for every
  endpoint, and the key has 32 characters.
\<close>

theorem generate_key_order_independent:
  assumes "distinct (map fst ps)" and "distinct (map fst qs)" and "map_of ps = map_of qs"
  shows "generate_key endpoint (Some ps) = generate_key endpoint (Some qs) \<and>
         length (generate_key endpoint (Some ps)) = 32"
proof
  have "dumps (JDict ps) = dumps (JDict qs)"
    by (simp only: dumps.simps sort_key_fst_eq [OF assms])
  then have "dumps (JDict [(''endpoint'', JStr endpoint), (''params'', JDict ps)])
           = dumps (JDict [(''endpoint'', JStr endpoint), (''params'', JDict qs)])"
    by (rule dumps_second_item_cong)
  then show "generate_key endpoint (Some ps) = generate_key endpoint (Some qs)"
    by (simp only: generate_key_def Let_def option.case)
  show "length (generate_key endpoint (Some ps)) = 32"
    by (simp only: generate_key_def Let_def length_md5_hexdigest)
qed

theorem generate_key_order_independent_witness:
  "distinct (map fst [(''q'', JStr ''x''), (''page'', JInt 2)]) \<and>
   distinct (map fst [(''page'', JInt 2), (''q'', JStr ''x'')]) \<and>
   map_of [(''q'', JStr ''x''), (''page'', JInt 2)] = map_of [(''page'', JInt 2), (''q'', JStr ''x'')] \<and>
   generate_key ''search'' (Some [(''q'', JStr ''x''), (''page'', JInt 2)])
     = generate_key ''search'' (Some [(''page'', JInt 2), (''q'', JStr ''x'')]) \<and>
   length (generate_key ''search'' (Some [(''q'', JStr ''x''), (''page'', JInt 2)])) = 32"
proof -
  have d1: "distinct (map fst [(''q'', JStr ''x''), (''page'', JInt 2)])" by simp
  have d2: "distinct (map fst [(''page'', JInt 2), (''q'', JStr ''x'')])" by simp
  have m: "map_of [(''q'', JStr ''x''), (''page'', JInt 2)]
         = map_of [(''page'', JInt 2), (''q'', JStr ''x'')]"
    by (rule ext) simp
  note key = generate_key_order_independent [OF d1 d2 m, of "''search''"]
  show ?thesis
    by (intro conjI d1 d2 m key [THEN conjunct1] key [THEN conjunct2])
qed

section \<open>Properties of HTTPClientHelper\<close>

text \<open>
  C2, at the input where the code departs from it.  The claim, the docstring and the unit
  tests \<^verbatim>\<open>test_parse_rate_limit_partial_headers\<close> and \<^verbatim>\<open>test_parse_rate_limit_empty_headers\<close>
  have \<^verbatim>\<open>None\<close> for a header map that lacks one of the three headers.  The code reads each
  header with \<^verbatim>\<open>headers.get(name, 0)\<close>, so a missing header counts as 0: for the empty
  header map the result is a \<^verbatim>\<open>RateLimitInfo\<close> of zeros, whatever \<^verbatim>\<open>int\<close> and \<^verbatim>\<open>float\<close> do on
  strings.
\<close>

theorem parse_rate_limit_missing_headers:
  "HTTPClientHelper_parse_rate_limit int_of_str float_of_str Map.empty =
     Some \<lparr>RateLimitInfo.limit = 0, remaining = 0, reset = 0, used = 0\<rparr>"
  by (simp add: HTTPClientHelper_parse_rate_limit_def)

lemma parse_rate_limit_partial:
  assumes "headers ''x-ratelimit-limit'' = Some a" and "int_of_str a = Some l"
    and "headers ''x-ratelimit-remaining'' = Some b" and "int_of_str b = Some r"
    and "headers ''x-ratelimit-reset'' = None"
  shows "HTTPClientHelper_parse_rate_limit int_of_str float_of_str headers =
           Some \<lparr>RateLimitInfo.limit = l, remaining = r, reset = 0, used = l - r\<rparr>"
  using assms by (simp add: HTTPClientHelper_parse_rate_limit_def)

text \<open>
  When the three headers are present the code does what its docstring says: the result is
  \<^verbatim>\<open>None\<close> as soon as one of them does not parse, and otherwise the parsed limit, remaining
  and reset with \<open>used = limit - remaining\<close>.
\<close>

lemma parse_rate_limit_present:
  assumes "headers ''x-ratelimit-limit'' = Some a"
    and "headers ''x-ratelimit-remaining'' = Some b"
    and "headers ''x-ratelimit-reset'' = Some c"
  shows "HTTPClientHelper_parse_rate_limit int_of_str float_of_str headers =
           (case (int_of_str a, int_of_str b, float_of_str c) of
              (Some l, Some r, Some t) \<Rightarrow>
                Some \<lparr>RateLimitInfo.limit = l, remaining = r, reset = t, used = l - r\<rparr>
            | _ \<Rightarrow> None)"
  using assms by (simp add: HTTPClientHelper_parse_rate_limit_def split: option.splits)

text \<open>
  C8, as the code has it.  When the body decodes to a JSON object, the result is its
  \<^verbatim>\<open>message\<close> field if it has one and the string form of the object if not.  When the body
  decodes to any other JSON value, or does not decode (\<^verbatim>\<open>JSONDecodeError\<close>), the result is
  the body text itself.
\<close>

theorem get_error_message_cases:
  "(\<forall>d. loads body = Inr (JDict d) \<longrightarrow>
      HTTPClientHelper_get_error_message loads str_of body =
        Inr (case map_of d ''message'' of Some m \<Rightarrow> m | None \<Rightarrow> JStr (str_of (JDict d)))) \<and>
   ((\<exists>v. loads body = Inr v \<and> (\<forall>d. v \<noteq> JDict d)) \<or> loads body = Inl JSONDecodeError \<longrightarrow>
      HTTPClientHelper_get_error_message loads str_of body = Inr (JStr body))"
proof (intro conjI allI impI)
  fix d assume "loads body = Inr (JDict d)"
  then show "HTTPClientHelper_get_error_message loads str_of body =
        Inr (case map_of d ''message'' of Some m \<Rightarrow> m | None \<Rightarrow> JStr (str_of (JDict d)))"
    by (simp add: HTTPClientHelper_get_error_message_def split: option.split)
next
  assume "(\<exists>v. loads body = Inr v \<and> (\<forall>d. v \<noteq> JDict d)) \<or> loads body = Inl JSONDecodeError"
  then show "HTTPClientHelper_get_error_message loads str_of body = Inr (JStr body)"
  proof
    assume "\<exists>v. loads body = Inr v \<and> (\<forall>d. v \<noteq> JDict d)"
    then obtain v where "loads body = Inr v" "\<forall>d. v \<noteq> JDict d" by blast
    then show ?thesis
      by (cases v) (simp_all add: HTTPClientHelper_get_error_message_def)
  next
    assume "loads body = Inl JSONDecodeError"
    then show ?thesis by (simp add: HTTPClientHelper_get_error_message_def)
  qed
qed

theorem get_error_message_cases_witness:
  "HTTPClientHelper_get_error_message
       (\<lambda>s. if s = message_body then Inr (JDict [(''message'', JInt 1)])
            else if s = ''{}'' then Inr (JDict []) else Inl JSONDecodeError)
       (\<lambda>v. ''{}'') message_body = Inr (JInt 1) \<and>
   HTTPClientHelper_get_error_message
       (\<lambda>s. if s = message_body then Inr (JDict [(''message'', JInt 1)])
            else if s = ''{}'' then Inr (JDict []) else Inl JSONDecodeError)
       (\<lambda>v. ''{}'') ''{}'' = Inr (JStr ''{}'') \<and>
   HTTPClientHelper_get_error_message
       (\<lambda>s. if s = message_body then Inr (JDict [(''message'', JInt 1)])
            else if s = ''{}'' then Inr (JDict []) else Inl JSONDecodeError)
       (\<lambda>v. ''{}'') ''Bad Request'' = Inr (JStr ''Bad Request'')"
  using
    get_error_message_cases
      [of "\<lambda>s. if s = message_body then Inr (JDict [(''message'', JInt 1)])
               else if s = ''{}'' then Inr (JDict []) else Inl JSONDecodeError"
          message_body "\<lambda>v. ''{}''"]
    get_error_message_cases
      [of "\<lambda>s. if s = message_body then Inr (JDict [(''message'', JInt 1)])
               else if s = ''{}'' then Inr (JDict []) else Inl JSONDecodeError"
          "''{}''" "\<lambda>v. ''{}''"]
    get_error_message_cases
      [of "\<lambda>s. if s = message_body then Inr (JDict [(''message'', JInt 1)])
               else if s = ''{}'' then Inr (JDict []) else Inl JSONDecodeError"
          "''Bad Request''" "\<lambda>v. ''{}''"]
  by (simp add: message_body_def)

text \<open>
  Against the claim as stated, which has the string form of the parsed value for
  every body that parses without a \<^verbatim>\<open>message\<close> field.  The body \<^verbatim>\<open>"7 "\<close> decodes to the
  integer 7, whose string form is \<^verbatim>\<open>"7"\<close>; the value is no dictionary, and the code
  returns the body \<^verbatim>\<open>"7 "\<close>.  For every decoder and string conversion that agree with
  Python on this body, the claim fails.
\<close>

theorem get_error_message_non_object:
  "\<not> (\<forall>loads str_of. loads ''7 '' = Inr (JInt 7) \<longrightarrow> str_of (JInt 7) = ''7'' \<longrightarrow>
        HTTPClientHelper_get_error_message loads str_of ''7 '' = Inr (JStr (str_of (JInt 7))))"
proof
  assume a: "\<forall>loads str_of. loads ''7 '' = Inr (JInt 7) \<longrightarrow> str_of (JInt 7) = ''7'' \<longrightarrow>
        HTTPClientHelper_get_error_message loads str_of ''7 '' = Inr (JStr (str_of (JInt 7)))"
  have "HTTPClientHelper_get_error_message (\<lambda>s. Inr (JInt 7)) (\<lambda>v. ''7'') ''7 ''
          = Inr (JStr ''7'')"
    using a [rule_format, of "\<lambda>s. Inr (JInt 7)" "\<lambda>v. ''7''"] by simp
  then show False by (simp add: HTTPClientHelper_get_error_message_def)
qed

end
